theory Spec2Isabelle
  imports Complex_Main "HOL-Library.Product_Lexorder"
begin

section \<open>Mesh generation of py-tdgl (tdgl/device/mesh.py)\<close>

text \<open>
  The module builds a planar mesh with three external libraries: the triangulation
  engine (\<^verbatim>\<open>meshpy.triangle.build\<close>), the smoother (\<^verbatim>\<open>optimesh\<close>) and the polygon
  library (\<^verbatim>\<open>shapely\<close>, \<^verbatim>\<open>scipy.spatial.ConvexHull\<close>). None of them is part of the
  module, so each is a parameter of the function that calls it; an external call that
  may raise returns a sum. Coordinates are real numbers: floating-point rounding, NaN
  and signed zeros are outside the model, and comparison of coordinates is equality of
  the numbers. Rows of an \<open>(n, 2)\<close> array are pairs, ordered lexicographically as
  \<^verbatim>\<open>np.unique(..., axis=0)\<close> orders them.
\<close>

subsection \<open>Data\<close>

type_synonym point = "real \<times> real"
type_synonym facet = "nat \<times> nat"
type_synonym triangle = "nat \<times> nat \<times> nat"

text \<open>
  The exceptions of the module and of the numpy operations it uses. The first three are
  all Python's \<^verbatim>\<open>ValueError\<close>, told apart by what raises them: the explicit
  \<^verbatim>\<open>raise\<close> of \<^verbatim>\<open>generate_mesh\<close>, a \<^verbatim>\<open>min\<close> over an empty array, and operands
  that cannot be broadcast together. \<open>NotInList\<close> is the \<^verbatim>\<open>ValueError\<close> of
  \<^verbatim>\<open>list.index\<close>. \<open>External\<close> is anything an external library raises.
\<close>

datatype error =
    InvalidConfiguration
  | EmptyReduction
  | BroadcastError
  | IndexError
  | NotInList
  | KeyError
  | TypeError
  | External string

text \<open>
  Keyword options for the engine: a dictionary from option names to values. A value is
  a number or something the module never looks into.
\<close>

datatype 'o optval = Num real | Opaque 'o

type_synonym 'o kwargs = "string \<rightharpoonup> 'o optval"

text \<open>\<^verbatim>\<open>triangle.MeshInfo\<close>: points, facets and hole markers (none by default).\<close>

record mesh_info =
  mi_points :: "point list"
  mi_facets :: "facet list"
  mi_holes :: "point list"

text \<open>What \<^verbatim>\<open>triangle.build\<close> returns: \<^verbatim>\<open>mesh.points\<close> and \<^verbatim>\<open>mesh.elements\<close>.\<close>

record mesh =
  mesh_points :: "point list"
  mesh_elements :: "triangle list"

text \<open>One call of \<^verbatim>\<open>triangle.build(mesh_info=mesh_info, **kwargs)\<close>, as it was made.\<close>

type_synonym 'o invocation = "mesh_info \<times> 'o kwargs"

subsection \<open>numpy and list helpers\<close>

text \<open>A comprehension whose elements may raise: evaluated left to right, the first raise wins.\<close>

fun collect :: "(error + 'a) list \<Rightarrow> error + 'a list" where
  "collect [] = Inr []"
| "collect (r # rs) =
     (case r of
        Inl e \<Rightarrow> Inl e
      | Inr x \<Rightarrow> (case collect rs of Inl e \<Rightarrow> Inl e | Inr xs \<Rightarrow> Inr (x # xs)))"

text \<open>Index of the first occurrence of \<open>v\<close> (only used where \<open>v\<close> occurs).\<close>

fun first_index :: "'a list \<Rightarrow> 'a \<Rightarrow> nat" where
  "first_index [] v = 0"
| "first_index (x # xs) v = (if x = v then 0 else Suc (first_index xs v))"

text \<open>Python's \<^verbatim>\<open>list.index\<close>: the first position holding \<open>v\<close>, \<^verbatim>\<open>ValueError\<close> if none.\<close>

fun list_index :: "'a list \<Rightarrow> 'a \<Rightarrow> error + nat" where
  "list_index [] v = Inl NotInList"
| "list_index (x # xs) v =
     (if x = v then Inr 0
      else (case list_index xs v of Inl e \<Rightarrow> Inl e | Inr i \<Rightarrow> Inr (Suc i)))"

text \<open>numpy integer indexing: a negative index counts from the end, out of range raises.\<close>

definition np_get :: "'a list \<Rightarrow> int \<Rightarrow> error + 'a" where
  "np_get xs i =
     (if 0 \<le> i \<and> i < int (length xs) then Inr (xs ! nat i)
      else if - int (length xs) \<le> i \<and> i < 0 then Inr (xs ! nat (int (length xs) + i))
      else Inl IndexError)"

text \<open>
  \<^verbatim>\<open>_, ix = np.unique(coords, return_index=True, axis=0)\<close>: for the distinct rows in
  sorted order, the index of the first occurrence of each.
\<close>

definition unique_index :: "'a::linorder list \<Rightarrow> nat list" where
  "unique_index coords = map (first_index coords) (sorted_list_of_set (set coords))"

text \<open>\<^verbatim>\<open>a.min()\<close> and \<^verbatim>\<open>np.ptp(a)\<close>; both raise on an empty array.\<close>

definition array_min :: "real list \<Rightarrow> error + real" where
  "array_min a = (case a of [] \<Rightarrow> Inl EmptyReduction | x # xs \<Rightarrow> Inr (fold min xs x))"

definition array_ptp :: "real list \<Rightarrow> error + real" where
  "array_ptp a =
     (case a of [] \<Rightarrow> Inl EmptyReduction | x # xs \<Rightarrow> Inr (fold max xs x - fold min xs x))"

definition psub :: "point \<Rightarrow> point \<Rightarrow> point" where
  "psub p r = (fst p - fst r, snd p - snd r)"

definition padd :: "point \<Rightarrow> point \<Rightarrow> point" where
  "padd p r = (fst p + fst r, snd p + snd r)"

text \<open>
  \<^verbatim>\<open>tuple(c) in arr\<close> for an \<open>(m, 2)\<close> array \<open>arr\<close>: numpy evaluates
  \<^verbatim>\<open>(arr == c).any()\<close>, the comparison broadcast over the rows and taken element by
  element.
\<close>

definition in_array :: "point \<Rightarrow> point list \<Rightarrow> bool" where
  "in_array c arr = (\<exists>q \<in> set arr. fst q = fst c \<or> snd q = snd c)"

text \<open>\<^verbatim>\<open>np.array([indices, np.roll(indices, -1)]).T\<close>: each index paired with its successor, cyclically.\<close>

definition cycle :: "nat list \<Rightarrow> facet list" where
  "cycle indices = zip indices (rotate1 indices)"

subsection \<open>ensure_unique\<close>

definition ensure_unique :: "'a::linorder list \<Rightarrow> 'a list" where
  "ensure_unique coords =
     (let ix = unique_index coords in map (\<lambda>i. coords ! i) (sort ix))"

text \<open>
  The contract in the specification's words: each distinct coordinate once, in the order
  of first occurrence.
\<close>

fun first_occurrences :: "'a list \<Rightarrow> 'a list" where
  "first_occurrences [] = []"
| "first_occurrences (x # xs) = x # removeAll x (first_occurrences xs)"

text \<open>Position \<open>i\<close> holds the first occurrence of its entry.\<close>

definition is_first :: "'a list \<Rightarrow> nat \<Rightarrow> bool" where
  "is_first xs i = (first_index xs (xs ! i) = i)"

subsection \<open>generate_mesh: points, facets and hole markers\<close>

text \<open>
  Bounding box of the combined coordinates: \<open>(xmin, dx, ymin, dy)\<close>. The first
  reduction over an empty array raises.
\<close>

definition bounding_box :: "point list \<Rightarrow> error + (real \<times> real \<times> real \<times> real)" where
  "bounding_box coords =
     (case array_min (map fst coords) of Inl e \<Rightarrow> Inl e | Inr xmin \<Rightarrow>
      (case array_ptp (map fst coords) of Inl e \<Rightarrow> Inl e | Inr dx \<Rightarrow>
       (case array_min (map snd coords) of Inl e \<Rightarrow> Inl e | Inr ymin \<Rightarrow>
        (case array_ptp (map snd coords) of Inl e \<Rightarrow> Inl e | Inr dy \<Rightarrow>
           Inr (xmin, dx, ymin, dy)))))"

text \<open>
  The \<^verbatim>\<open>if convex_hull: ... else: ...\<close> block: the indices and facets of the outer
  ring. With a boundary subset the comprehension evaluates \<^verbatim>\<open>boundary - r0\<close> once per
  index; an empty \<^verbatim>\<open>boundary\<close> has shape \<open>(0,)\<close>, which does not broadcast against
  the \<open>(1, 2)\<close> offset.
\<close>

definition outer_facets ::
  "(point list \<Rightarrow> error + facet list) \<Rightarrow> bool \<Rightarrow> point list option \<Rightarrow> point list \<Rightarrow> point
     \<Rightarrow> nat list \<Rightarrow> error + (nat list \<times> facet list)" where
  "outer_facets hull_facets convex_hull boundary coords r0 indices =
     (if convex_hull then
        (case boundary of
           Some b \<Rightarrow> Inl InvalidConfiguration
         | None \<Rightarrow>
            (case hull_facets coords of
               Inl e \<Rightarrow> Inl e
             | Inr simplices \<Rightarrow> Inr (indices, simplices)))
      else
        (case boundary of
           None \<Rightarrow> Inr (indices, cycle indices)
         | Some b \<Rightarrow>
            if indices = [] then Inr ([], cycle [])
            else if b = [] then Inl BroadcastError
            else
              (let kept = filter (\<lambda>i. in_array (coords ! i) (map (\<lambda>q. psub q r0) b)) indices
               in Inr (kept, cycle kept))))"

text \<open>The loop over the holes; \<^verbatim>\<open>indices[-1]\<close> raises when there are no indices yet.\<close>

fun add_hole_facets ::
  "nat list \<Rightarrow> facet list \<Rightarrow> point list list \<Rightarrow> error + (nat list \<times> facet list)" where
  "add_hole_facets indices facets [] = Inr (indices, facets)"
| "add_hole_facets indices facets (hole # holes) =
     (if indices = [] then Inl IndexError
      else
        (let hole_indices = [last indices + 1 ..< last indices + 1 + length hole];
             hole_facets = cycle hole_indices
         in add_hole_facets (indices @ hole_indices) (facets @ hole_facets) holes))"

text \<open>
  The index range that each hole's points occupy in the combined point array, \<open>n\<close>
  being the number of points before the first hole.
\<close>

fun hole_ranges :: "nat \<Rightarrow> 'a list list \<Rightarrow> nat list list" where
  "hole_ranges n [] = []"
| "hole_ranges n (hole # holes) = [n ..< n + length hole] # hole_ranges (n + length hole) holes"

text \<open>
  The hole markers: the centroid of each hole (\<^verbatim>\<open>shapely\<close>, a parameter), moved by
  the offset.
\<close>

definition hole_markers ::
  "(point list \<Rightarrow> error + point) \<Rightarrow> point \<Rightarrow> point list list \<Rightarrow> error + point list" where
  "hole_markers centroid r0 hole_coords =
     collect (map (\<lambda>hole. case centroid hole of Inl e \<Rightarrow> Inl e | Inr c \<Rightarrow> Inr (psub c r0))
                  hole_coords)"

text \<open>
  Everything \<^verbatim>\<open>generate_mesh\<close> does before it first calls the engine: the
  \<open>mesh_info\<close> it fills, with the offset \<open>r0\<close> and the extent \<open>dx\<close>, \<open>dy\<close> that the
  rest of the function uses.
\<close>

definition generate_mesh_info ::
  "(point list \<Rightarrow> error + facet list) \<Rightarrow> (point list \<Rightarrow> error + point) \<Rightarrow> point list
     \<Rightarrow> point list list option \<Rightarrow> bool \<Rightarrow> point list option
     \<Rightarrow> error + (mesh_info \<times> point \<times> real \<times> real)" where
  "generate_mesh_info hull_facets centroid poly_coords0 hole_coords0 convex_hull boundary =
     (let poly_coords = ensure_unique poly_coords0;
          hole_coords = map ensure_unique (case hole_coords0 of None \<Rightarrow> [] | Some hs \<Rightarrow> hs);
          coords0 = concat (poly_coords # hole_coords)
      in case bounding_box coords0 of
           Inl e \<Rightarrow> Inl e
         | Inr (xmin, dx, ymin, dy) \<Rightarrow>
            (let r0 = (xmin + dx / 2, ymin + dy / 2);
                 coords = map (\<lambda>p. psub p r0) coords0;
                 indices = [0 ..< length poly_coords]
             in case outer_facets hull_facets convex_hull boundary coords r0 indices of
                  Inl e \<Rightarrow> Inl e
                | Inr (indices1, facets1) \<Rightarrow>
                   (case add_hole_facets indices1 facets1 hole_coords of
                      Inl e \<Rightarrow> Inl e
                    | Inr (indices2, facets) \<Rightarrow>
                       (case hole_markers centroid r0 hole_coords of
                          Inl e \<Rightarrow> Inl e
                        | Inr holes \<Rightarrow>
                           Inr (\<lparr>mi_points = coords, mi_facets = facets, mi_holes = holes\<rparr>,
                                r0, dx, dy)))))"

subsection \<open>generate_mesh: the refinement loop\<close>

text \<open>
  The target edge length after \<^verbatim>\<open>if max_edge_length is None or max_edge_length <= 0\<close>:
  \<open>None\<close> stands for \<^verbatim>\<open>np.inf\<close>.
\<close>

definition edge_target :: "real option \<Rightarrow> real option" where
  "edge_target max_edge_length =
     (case max_edge_length of None \<Rightarrow> None | Some L \<Rightarrow> if L \<le> 0 then None else Some L)"

definition exceeds :: "real \<Rightarrow> real option \<Rightarrow> bool" where
  "exceeds max_length target = (case target of None \<Rightarrow> False | Some L \<Rightarrow> max_length > L)"

text \<open>
  The factor of one refinement step. For a finite target \<open>L > 0\<close> it is
  \<^verbatim>\<open>min(0.98, np.sqrt(L / max_length))\<close>; numpy's division gives \<open>inf\<close> at
  \<open>max_length = 0\<close> and the root of a negative quotient is NaN, and \<^verbatim>\<open>min\<close> returns
  \<open>0.98\<close> in both cases.
\<close>

definition shrink_factor :: "real option \<Rightarrow> real \<Rightarrow> real" where
  "shrink_factor target max_length =
     (case target of
        Some L \<Rightarrow> (if max_length \<le> 0 then 98 / 100 else min (98 / 100) (sqrt (L / max_length)))
      | None \<Rightarrow> 98 / 100)"

text \<open>\<^verbatim>\<open>kwargs["max_volume"] *= f\<close>.\<close>

definition scale_max_volume :: "real \<Rightarrow> 'o kwargs \<Rightarrow> error + 'o kwargs" where
  "scale_max_volume f kw =
     (case kw ''max_volume'' of
        None \<Rightarrow> Inl KeyError
      | Some (Num v) \<Rightarrow> Inr (kw(''max_volume'' \<mapsto> Num (v * f)))
      | Some (Opaque x) \<Rightarrow> Inl TypeError)"

text \<open>
  \<^verbatim>\<open>triangle.build(mesh_info=mesh_info, **kwargs)\<close> passes \<open>mesh_info\<close> by name. When
  the options hold the key \<open>mesh_info\<close> as well, Python refuses the call with a
  \<^verbatim>\<open>TypeError\<close> and the engine is not entered; both calls of the engine below start
  with this test.

  The \<^verbatim>\<open>while\<close> loop. It has no bound on its iterations, so it is a partial function:
  \<open>None\<close> is a loop that never ends. \<open>calls\<close> are the engine invocations made so far.
  \<open>edge_max\<close> is \<^verbatim>\<open>get_edge_lengths(points, triangles).max()\<close>, a function of the
  package that is not in this module: a parameter. The iteration counter and the debug
  log line of each iteration do not reach the result and are left out.
\<close>

partial_function (option) refine_loop ::
  "(mesh_info \<Rightarrow> 'o kwargs \<Rightarrow> error + mesh)
     \<Rightarrow> (point list \<Rightarrow> triangle list \<Rightarrow> error + real)
     \<Rightarrow> mesh_info \<Rightarrow> point \<Rightarrow> int \<Rightarrow> real option
     \<Rightarrow> 'o kwargs \<Rightarrow> 'o invocation list \<Rightarrow> point list \<Rightarrow> triangle list \<Rightarrow> real
     \<Rightarrow> ('o invocation list \<times> (error + point list \<times> triangle list)) option" where
  "refine_loop build edge_max info r0 min_points target kw calls points triangles max_length =
     (if int (length points) < min_points \<or> exceeds max_length target then
        (if kw ''mesh_info'' \<noteq> None then Some (calls, Inl TypeError)
         else
           (case build info kw of
              Inl e \<Rightarrow> Some (calls @ [(info, kw)], Inl e)
            | Inr m \<Rightarrow>
               (case edge_max (map (\<lambda>p. padd p r0) (mesh_points m)) (mesh_elements m) of
                  Inl e \<Rightarrow> Some (calls @ [(info, kw)], Inl e)
                | Inr max_length' \<Rightarrow>
                   (case scale_max_volume (shrink_factor target max_length') kw of
                      Inl e \<Rightarrow> Some (calls @ [(info, kw)], Inl e)
                    | Inr kw' \<Rightarrow>
                       refine_loop build edge_max info r0 min_points target kw'
                         (calls @ [(info, kw)])
                         (map (\<lambda>p. padd p r0) (mesh_points m)) (mesh_elements m)
                         max_length'))))
      else Some (calls, Inr (points, triangles)))"

text \<open>
  \<^verbatim>\<open>generate_mesh\<close>. The result is the list of engine invocations the call made, with
  what it returned or raised.
\<close>

definition generate_mesh ::
  "(mesh_info \<Rightarrow> 'o kwargs \<Rightarrow> error + mesh)
     \<Rightarrow> (point list \<Rightarrow> error + facet list)
     \<Rightarrow> (point list \<Rightarrow> error + point)
     \<Rightarrow> (point list \<Rightarrow> triangle list \<Rightarrow> error + real)
     \<Rightarrow> point list \<Rightarrow> point list list option \<Rightarrow> int option \<Rightarrow> real option \<Rightarrow> bool
     \<Rightarrow> point list option \<Rightarrow> 'o kwargs
     \<Rightarrow> ('o invocation list \<times> (error + point list \<times> triangle list)) option" where
  "generate_mesh build hull_facets centroid edge_max poly_coords hole_coords min_points
       max_edge_length convex_hull boundary kwargs =
     (case generate_mesh_info hull_facets centroid poly_coords hole_coords convex_hull boundary of
        Inl e \<Rightarrow> Some ([], Inl e)
      | Inr (info, r0, dx, dy) \<Rightarrow>
         if kwargs ''mesh_info'' \<noteq> None then Some ([], Inl TypeError)
         else
         (case build info kwargs of
            Inl e \<Rightarrow> Some ([(info, kwargs)], Inl e)
          | Inr m \<Rightarrow>
             (let points = map (\<lambda>p. padd p r0) (mesh_points m);
                  triangles = mesh_elements m
              in if min_points = None
                    \<and> (case max_edge_length of None \<Rightarrow> True | Some L \<Rightarrow> L \<le> 0)
                 then Some ([(info, kwargs)], Inr (points, triangles))
                 else
                   (let kw = kwargs(''max_volume'' \<mapsto> Num (dx * dy / 100));
                        min_points' = (case min_points of None \<Rightarrow> 0 | Some n \<Rightarrow> n);
                        target = edge_target max_edge_length
                    in case edge_max points triangles of
                         Inl e \<Rightarrow> Some ([(info, kwargs)], Inl e)
                       | Inr max_length \<Rightarrow>
                          refine_loop build edge_max info r0 min_points' target kw
                            [(info, kwargs)] points triangles max_length))))"

subsection \<open>generate_mesh observed for a bounded number of iterations\<close>

text \<open>
  The loop may run forever, and a call that never returns has made engine invocations
  all the same. \<open>refine_loop_upto fuel\<close> is the same loop stopped after at most \<open>fuel\<close>
  iterations: it gives the invocations made until then, with the result if the loop has
  returned by then and \<open>None\<close> if it is still running.
\<close>

fun refine_loop_upto ::
  "nat \<Rightarrow> (mesh_info \<Rightarrow> 'o kwargs \<Rightarrow> error + mesh)
     \<Rightarrow> (point list \<Rightarrow> triangle list \<Rightarrow> error + real)
     \<Rightarrow> mesh_info \<Rightarrow> point \<Rightarrow> int \<Rightarrow> real option
     \<Rightarrow> 'o kwargs \<Rightarrow> 'o invocation list \<Rightarrow> point list \<Rightarrow> triangle list \<Rightarrow> real
     \<Rightarrow> 'o invocation list \<times> (error + point list \<times> triangle list) option" where
  "refine_loop_upto 0 build edge_max info r0 min_points target kw calls points triangles
       max_length =
     (if int (length points) < min_points \<or> exceeds max_length target then (calls, None)
      else (calls, Some (Inr (points, triangles))))"
| "refine_loop_upto (Suc fuel) build edge_max info r0 min_points target kw calls points triangles
       max_length =
     (if int (length points) < min_points \<or> exceeds max_length target then
        (if kw ''mesh_info'' \<noteq> None then (calls, Some (Inl TypeError))
         else
           (case build info kw of
              Inl e \<Rightarrow> (calls @ [(info, kw)], Some (Inl e))
            | Inr m \<Rightarrow>
               (case edge_max (map (\<lambda>p. padd p r0) (mesh_points m)) (mesh_elements m) of
                  Inl e \<Rightarrow> (calls @ [(info, kw)], Some (Inl e))
                | Inr max_length' \<Rightarrow>
                   (case scale_max_volume (shrink_factor target max_length') kw of
                      Inl e \<Rightarrow> (calls @ [(info, kw)], Some (Inl e))
                    | Inr kw' \<Rightarrow>
                       refine_loop_upto fuel build edge_max info r0 min_points target kw'
                         (calls @ [(info, kw)])
                         (map (\<lambda>p. padd p r0) (mesh_points m)) (mesh_elements m)
                         max_length'))))
      else (calls, Some (Inr (points, triangles))))"

text \<open>\<^verbatim>\<open>generate_mesh\<close> with its loop stopped after at most \<open>fuel\<close> iterations.\<close>

definition generate_mesh_upto ::
  "nat \<Rightarrow> (mesh_info \<Rightarrow> 'o kwargs \<Rightarrow> error + mesh)
     \<Rightarrow> (point list \<Rightarrow> error + facet list)
     \<Rightarrow> (point list \<Rightarrow> error + point)
     \<Rightarrow> (point list \<Rightarrow> triangle list \<Rightarrow> error + real)
     \<Rightarrow> point list \<Rightarrow> point list list option \<Rightarrow> int option \<Rightarrow> real option \<Rightarrow> bool
     \<Rightarrow> point list option \<Rightarrow> 'o kwargs
     \<Rightarrow> 'o invocation list \<times> (error + point list \<times> triangle list) option" where
  "generate_mesh_upto fuel build hull_facets centroid edge_max poly_coords hole_coords min_points
       max_edge_length convex_hull boundary kwargs =
     (case generate_mesh_info hull_facets centroid poly_coords hole_coords convex_hull boundary of
        Inl e \<Rightarrow> ([], Some (Inl e))
      | Inr (info, r0, dx, dy) \<Rightarrow>
         if kwargs ''mesh_info'' \<noteq> None then ([], Some (Inl TypeError))
         else
         (case build info kwargs of
            Inl e \<Rightarrow> ([(info, kwargs)], Some (Inl e))
          | Inr m \<Rightarrow>
             (let points = map (\<lambda>p. padd p r0) (mesh_points m);
                  triangles = mesh_elements m
              in if min_points = None
                    \<and> (case max_edge_length of None \<Rightarrow> True | Some L \<Rightarrow> L \<le> 0)
                 then ([(info, kwargs)], Some (Inr (points, triangles)))
                 else
                   (let kw = kwargs(''max_volume'' \<mapsto> Num (dx * dy / 100));
                        min_points' = (case min_points of None \<Rightarrow> 0 | Some n \<Rightarrow> n);
                        target = edge_target max_edge_length
                    in case edge_max points triangles of
                         Inl e \<Rightarrow> ([(info, kwargs)], Some (Inl e))
                       | Inr max_length \<Rightarrow>
                          refine_loop_upto fuel build edge_max info r0 min_points' target kw
                            [(info, kwargs)] points triangles max_length))))"

subsection \<open>optimize_mesh\<close>

text \<open>
  \<^verbatim>\<open>optimesh.optimize_points_cells\<close> is the parameter \<open>optimizer\<close>; the function
  passes its arguments on (method and tolerance before the step count) and returns the
  pair the optimizer returns.
\<close>

definition optimize_mesh ::
  "(point list \<Rightarrow> triangle list \<Rightarrow> string \<Rightarrow> real \<Rightarrow> nat \<Rightarrow> bool \<Rightarrow> 'o kwargs
      \<Rightarrow> error + point list \<times> triangle list)
     \<Rightarrow> point list \<Rightarrow> triangle list \<Rightarrow> nat \<Rightarrow> string \<Rightarrow> real \<Rightarrow> bool \<Rightarrow> 'o kwargs
     \<Rightarrow> error + point list \<times> triangle list" where
  "optimize_mesh optimizer points triangles steps method tolerance verbose kwargs =
     (case optimizer points triangles method tolerance steps verbose kwargs of
        Inl e \<Rightarrow> Inl e
      | Inr (points', triangles') \<Rightarrow> Inr (points', triangles'))"

text \<open>
  Modelled from the spec: the smoother. \<^verbatim>\<open>optimesh\<close> is an external library and
  nothing of it is in the module; the specification gives it the contract of a
  \<open>MeshSmoother\<close> (sections 4.4 and 9): it returns a mesh with the same triangle
  connectivity (same index triples), only vertex coordinates change, and boundary
  vertices are held fixed. A boundary vertex is an end point of a boundary edge, and a
  boundary edge is an edge that exactly one triangle has.
\<close>

definition triangle_edges :: "triangle \<Rightarrow> (nat \<times> nat) list" where
  "triangle_edges t =
     (case t of (a, b, c) \<Rightarrow> [(min a b, max a b), (min b c, max b c), (min c a, max c a)])"

definition boundary_vertices :: "triangle list \<Rightarrow> nat set" where
  "boundary_vertices triangles =
     (let edges = concat (map triangle_edges triangles);
          boundary_edges = filter (\<lambda>e. count_list edges e = 1) edges
      in set (map fst boundary_edges) \<union> set (map snd boundary_edges))"

definition mesh_smoother ::
  "(point list \<Rightarrow> triangle list \<Rightarrow> string \<Rightarrow> real \<Rightarrow> nat \<Rightarrow> bool \<Rightarrow> 'o kwargs
      \<Rightarrow> error + point list \<times> triangle list) \<Rightarrow> bool" where
  "mesh_smoother optimizer =
     (\<forall>points triangles method tolerance steps verbose kwargs points' triangles'.
        optimizer points triangles method tolerance steps verbose kwargs = Inr (points', triangles')
        \<longrightarrow> triangles' = triangles
            \<and> length points' = length points
            \<and> (\<forall>i \<in> boundary_vertices triangles.
                  i < length points \<longrightarrow> points' ! i = points ! i))"

subsection \<open>oriented_boundary\<close>

text \<open>\<^verbatim>\<open>[points[edge, :] for edge in boundary_edges]\<close>: the two end points of each edge.\<close>

definition edge_segments :: "'a list \<Rightarrow> (int \<times> int) list \<Rightarrow> error + ('a \<times> 'a) list" where
  "edge_segments points boundary_edges =
     collect (map (\<lambda>(i, j).
                case np_get points i of
                  Inl e \<Rightarrow> Inl e
                | Inr p \<Rightarrow> (case np_get points j of Inl e \<Rightarrow> Inl e | Inr q \<Rightarrow> Inr (p, q)))
              boundary_edges)"

text \<open>
  \<^verbatim>\<open>polygonize\<close> and \<^verbatim>\<open>orient\<close> belong to \<^verbatim>\<open>shapely\<close>: parameters. A polygon is
  represented by \<^verbatim>\<open>polygon.exterior.coords\<close>, its closed ring of coordinates, the only
  part of it the function reads. \<open>exterior_indices\<close> is the body of the
  \<^verbatim>\<open>for\<close> loop for one oriented polygon: the index of every coordinate of the ring,
  then \<^verbatim>\<open>indices[:-1]\<close>.
\<close>

definition exterior_indices :: "'a list \<Rightarrow> 'a list \<Rightarrow> error + nat list" where
  "exterior_indices points ring =
     (case collect (map (list_index points) ring) of
        Inl e \<Rightarrow> Inl e
      | Inr indices \<Rightarrow> Inr (butlast indices))"

definition oriented_boundary ::
  "(('a \<times> 'a) list \<Rightarrow> 'a list list) \<Rightarrow> ('a list \<Rightarrow> 'a list) \<Rightarrow> 'a list \<Rightarrow> (int \<times> int) list
     \<Rightarrow> error + nat list list" where
  "oriented_boundary polygonize orient points boundary_edges =
     (case edge_segments points boundary_edges of
        Inl e \<Rightarrow> Inl e
      | Inr edges \<Rightarrow>
         collect (map (\<lambda>p. exterior_indices points (orient p)) (polygonize edges)))"

subsection \<open>Observations and the schedule of area bounds\<close>

text \<open>The engine invocations of a call (none if the call never returns).\<close>

definition invocations :: "('o invocation list \<times> 'r) option \<Rightarrow> 'o invocation list" where
  "invocations r = (case r of None \<Rightarrow> [] | Some (calls, res) \<Rightarrow> calls)"

definition mesh_infos_passed :: "'o invocation list \<Rightarrow> mesh_info list" where
  "mesh_infos_passed calls = map fst calls"

definition options_passed :: "string \<Rightarrow> 'o invocation list \<Rightarrow> 'o optval option list" where
  "options_passed key calls = map (\<lambda>(info, kw). kw key) calls"

text \<open>
  The specification's schedule of area bounds, read over a list of engine invocations:
  the first one is made with the bound \<open>v\<close>; when another invocation follows, the mesh
  built with \<open>v\<close> was measured, and the next bound is \<open>v\<close> times the factor for that
  measure.
\<close>

fun area_bounds_ok ::
  "(mesh_info \<Rightarrow> 'o kwargs \<Rightarrow> error + mesh) \<Rightarrow> (point list \<Rightarrow> triangle list \<Rightarrow> error + real)
     \<Rightarrow> point \<Rightarrow> real option \<Rightarrow> real \<Rightarrow> 'o invocation list \<Rightarrow> bool" where
  "area_bounds_ok build edge_max r0 target v [] = True"
| "area_bounds_ok build edge_max r0 target v ((info, kw) # rest) =
     (kw ''max_volume'' = Some (Num v) \<and>
      (rest = [] \<or>
       (case build info kw of
          Inl e \<Rightarrow> False
        | Inr m \<Rightarrow>
           (case edge_max (map (\<lambda>p. padd p r0) (mesh_points m)) (mesh_elements m) of
              Inl e \<Rightarrow> False
            | Inr max_length \<Rightarrow>
               area_bounds_ok build edge_max r0 target
                 (v * shrink_factor target max_length) rest))))"

subsection \<open>Stand-ins for the external libraries, for concrete runs\<close>

text \<open>A rectangle and a square hole inside it.\<close>

definition example_rect :: "point list" where
  "example_rect = [(0, 0), (4, 0), (4, 2), (0, 2)]"

definition example_hole :: "point list" where
  "example_hole = [(1, 1 / 2), (2, 1 / 2), (2, 3 / 2), (1, 3 / 2)]"

text \<open>What \<^verbatim>\<open>generate_mesh\<close> passes to the engine for the rectangle alone.\<close>

definition example_info :: mesh_info where
  "example_info = \<lparr>mi_points = [(- 2, - 1), (2, - 1), (2, 1), (- 2, 1)],
                    mi_facets = [(0, 1), (1, 2), (2, 3), (3, 0)],
                    mi_holes = []\<rparr>"

text \<open>
  An engine that returns the input points and two triangles, and one more point at the
  origin once the area bound is below \<open>1/20\<close>.
\<close>

definition example_build :: "mesh_info \<Rightarrow> unit kwargs \<Rightarrow> error + mesh" where
  "example_build info kw =
     Inr \<lparr>mesh_points =
            mi_points info @
              (case kw ''max_volume'' of
                 Some (Num v) \<Rightarrow> if v < 1 / 20 then [(0, 0)] else []
               | _ \<Rightarrow> []),
          mesh_elements = [(0, 1, 2), (0, 2, 3)]\<rparr>"

text \<open>A measure of the mesh: \<open>4\<close> for up to four vertices, \<open>1/2\<close> for more.\<close>

definition example_edge_max :: "point list \<Rightarrow> triangle list \<Rightarrow> error + real" where
  "example_edge_max points triangles = Inr (if length points \<le> 4 then 4 else 1 / 2)"

definition example_hull :: "point list \<Rightarrow> error + facet list" where
  "example_hull coords = Inr (cycle [0 ..< length coords])"

text \<open>The mean of the vertices (the centroid, for a rectangle).\<close>

definition example_centroid :: "point list \<Rightarrow> error + point" where
  "example_centroid hole =
     (if hole = [] then Inl (External ''empty polygon'')
      else Inr (sum_list (map fst hole) / real (length hole),
                sum_list (map snd hole) / real (length hole)))"

definition example_kwargs :: "unit kwargs" where
  "example_kwargs = [''max_volume'' \<mapsto> Num 5, ''min_angle'' \<mapsto> Num 30]"

text \<open>
  A smoother: every vertex that is not on the boundary moves to the mean of all vertices.
\<close>

definition example_smoother ::
  "point list \<Rightarrow> triangle list \<Rightarrow> string \<Rightarrow> real \<Rightarrow> nat \<Rightarrow> bool \<Rightarrow> unit kwargs
     \<Rightarrow> error + point list \<times> triangle list" where
  "example_smoother points triangles method tolerance steps verbose kwargs =
     Inr (map (\<lambda>i. if i \<in> boundary_vertices triangles then points ! i
                    else (sum_list (map fst points) / real (length points),
                          sum_list (map snd points) / real (length points)))
              [0 ..< length points],
          triangles)"

text \<open>A square with a vertex inside it, and the four triangles around that vertex.\<close>

definition example_fan_points :: "point list" where
  "example_fan_points = [(0, 0), (2, 0), (2, 2), (0, 2), (1 / 2, 1 / 2)]"

definition example_fan :: "triangle list" where
  "example_fan = [(0, 1, 4), (1, 2, 4), (2, 3, 4), (3, 0, 4)]"

text \<open>
  Polygonizers for a single closed chain of segments: the ring of the segments' start
  points, closed; the second one returns every coordinate moved by \<open>1/10\<close> in \<open>x\<close>.
\<close>

definition chain_polygonize :: "(point \<times> point) list \<Rightarrow> point list list" where
  "chain_polygonize segments =
     (case segments of [] \<Rightarrow> [] | s # ss \<Rightarrow> [map fst segments @ [fst s]])"

definition shifted_polygonize :: "(point \<times> point) list \<Rightarrow> point list list" where
  "shifted_polygonize segments =
     map (map (\<lambda>p. padd p (1 / 10, 0))) (chain_polygonize segments)"

definition keep_orientation :: "point list \<Rightarrow> point list" where
  "keep_orientation ring = ring"

section \<open>Properties\<close>

subsection \<open>Facts about the helpers\<close>

lemma first_index_less: "v \<in> set xs \<Longrightarrow> first_index xs v < length xs"
  by (induction xs) auto

lemma first_index_nth: "v \<in> set xs \<Longrightarrow> xs ! first_index xs v = v"
  by (induction xs) auto

lemma first_index_least: "j < first_index xs v \<Longrightarrow> xs ! j \<noteq> v"
proof (induction xs arbitrary: j)
  case Nil
  then show ?case by simp
next
  case (Cons x xs)
  then show ?case by (cases j) (auto split: if_splits)
qed

lemma first_index_unique:
  assumes "i < length xs" and "xs ! i = v" and "\<forall>j<i. xs ! j \<noteq> v"
  shows "first_index xs v = i"
proof -
  have mem: "v \<in> set xs" using assms(1,2) nth_mem by blast
  have "\<not> first_index xs v < i" using assms(3) first_index_nth[OF mem] by auto
  moreover have "\<not> i < first_index xs v" using first_index_least[of i xs v] assms(2) by auto
  ultimately show ?thesis by linarith
qed

lemma first_index_spec:
  assumes "xy \<in> set points"
  shows "first_index points xy < length points \<and> points ! first_index points xy = xy
        \<and> (\<forall>j<first_index points xy. points ! j \<noteq> xy)"
  using assms first_index_less[of xy points] first_index_nth[of xy points]
    first_index_least[of _ points xy] by simp

lemma list_index_Inr: "v \<in> set xs \<Longrightarrow> list_index xs v = Inr (first_index xs v)"
  by (induction xs) auto

lemma list_index_Inl: "v \<notin> set xs \<Longrightarrow> list_index xs v = Inl NotInList"
  by (induction xs) auto

lemma list_index_cases:
  "list_index xs v = (if v \<in> set xs then Inr (first_index xs v) else Inl NotInList)"
  by (simp add: list_index_Inr list_index_Inl)

lemma collect_map_Inr: "collect (map Inr xs) = Inr xs"
  by (induction xs) auto

lemma collect_InrD: "collect rs = Inr xs \<Longrightarrow> rs = map Inr xs"
proof (induction rs arbitrary: xs)
  case Nil
  then show ?case by simp
next
  case (Cons r rs)
  then show ?case by (auto split: sum.splits)
qed

lemma collect_Inl_mem: "collect rs = Inl e \<Longrightarrow> Inl e \<in> set rs"
  by (induction rs) (auto split: sum.splits)

lemma collect_Inl:
  assumes "\<forall>r \<in> set rs. \<forall>e. r = Inl e \<longrightarrow> e = E" and "Inl E \<in> set rs"
  shows "collect rs = Inl E"
proof (cases "collect rs")
  case (Inl e)
  then have "Inl e \<in> set rs" by (rule collect_Inl_mem)
  then have "e = E" using assms(1) by blast
  then show ?thesis using Inl by simp
next
  case (Inr xs)
  then have "rs = map Inr xs" by (rule collect_InrD)
  then show ?thesis using assms(2) by auto
qed

subsection \<open>ensure_unique\<close>

lemma set_unique_index: "set (unique_index xs) = first_index xs ` set xs"
  by (simp add: unique_index_def)

lemma distinct_unique_index: "distinct (unique_index xs)"
proof -
  have "inj_on (first_index xs) (set xs)"
    by (rule inj_onI) (metis first_index_nth)
  then show ?thesis by (simp add: unique_index_def distinct_map)
qed

lemma first_index_image: "first_index xs ` set xs = {i. i < length xs \<and> is_first xs i}"
proof (intro set_eqI iffI)
  fix i assume "i \<in> first_index xs ` set xs"
  then obtain v where v: "v \<in> set xs" "i = first_index xs v" by auto
  then show "i \<in> {i. i < length xs \<and> is_first xs i}"
    by (simp add: is_first_def first_index_less first_index_nth)
next
  fix i assume "i \<in> {i. i < length xs \<and> is_first xs i}"
  then have "i < length xs" "first_index xs (xs ! i) = i" by (auto simp: is_first_def)
  then show "i \<in> first_index xs ` set xs"
    by (metis imageI nth_mem)
qed

lemma sort_unique_index:
  "sort (unique_index xs) = filter (is_first xs) [0..<length xs]"
proof (rule sorted_distinct_set_unique)
  show "sorted (sort (unique_index xs))" by simp
  show "distinct (sort (unique_index xs))" by (simp add: distinct_unique_index)
  show "sorted (filter (is_first xs) [0..<length xs])" by (simp add: sorted_wrt_filter)
  show "distinct (filter (is_first xs) [0..<length xs])" by simp
  show "set (sort (unique_index xs)) = set (filter (is_first xs) [0..<length xs])"
    by (auto simp: set_unique_index first_index_image)
qed

lemma upt_Suc_shift: "[0..<Suc n] = 0 # map Suc [0..<n]"
  by (simp add: upt_conv_Cons map_Suc_upt del: upt_Suc)

lemma is_first_Cons_0: "is_first (x # xs) 0"
  by (simp add: is_first_def)

lemma is_first_Cons_Suc: "is_first (x # xs) (Suc i) = (xs ! i \<noteq> x \<and> is_first xs i)"
  by (simp add: is_first_def)

lemma firsts_Cons:
  "filter (is_first (x # xs)) [0..<Suc (length xs)] =
     0 # map Suc (filter (\<lambda>i. xs ! i \<noteq> x \<and> is_first xs i) [0..<length xs])"
  unfolding upt_Suc_shift
  by (simp add: is_first_Cons_0 is_first_Cons_Suc filter_map comp_def del: upt_Suc)

lemma map_nth_removeAll:
  "map (\<lambda>i. xs ! i) (filter (\<lambda>i. xs ! i \<noteq> x \<and> P i) js)
      = removeAll x (map (\<lambda>i. xs ! i) (filter P js))"
  by (induction js) auto

lemma map_nth_firsts:
  "map (\<lambda>i. xs ! i) (filter (is_first xs) [0..<length xs]) = first_occurrences xs"
proof (induction xs)
  case Nil
  then show ?case by simp
next
  case (Cons x xs)
  have "map (\<lambda>i. (x # xs) ! i) (filter (is_first (x # xs)) [0..<length (x # xs)])
      = x # map (\<lambda>i. xs ! i) (filter (\<lambda>i. xs ! i \<noteq> x \<and> is_first xs i) [0..<length xs])"
    using firsts_Cons[of x xs] by (simp add: comp_def del: upt_Suc)
  also have "\<dots> = x # removeAll x (first_occurrences xs)"
    by (simp only: map_nth_removeAll Cons.IH)
  finally show ?case by simp
qed

lemma is_first_iff:
  assumes "i < length xs"
  shows "is_first xs i \<longleftrightarrow> (\<forall>j<i. xs ! j \<noteq> xs ! i)"
proof
  assume "is_first xs i"
  then have "first_index xs (xs ! i) = i" by (simp add: is_first_def)
  then show "\<forall>j<i. xs ! j \<noteq> xs ! i" using first_index_least[of _ xs "xs ! i"] by simp
next
  assume "\<forall>j<i. xs ! j \<noteq> xs ! i"
  then have "first_index xs (xs ! i) = i" using assms by (intro first_index_unique) simp_all
  then show "is_first xs i" by (simp add: is_first_def)
qed

lemma ensure_unique_is_first:
  "ensure_unique xs = map (\<lambda>i. xs ! i) (filter (is_first xs) [0..<length xs])"
  by (simp add: ensure_unique_def sort_unique_index)

lemma ensure_unique_first_occurrences: "ensure_unique xs = first_occurrences xs"
  by (simp add: ensure_unique_is_first map_nth_firsts)

lemma set_first_occurrences: "set (first_occurrences xs) = set xs"
  by (induction xs) auto

lemma distinct_first_occurrences: "distinct (first_occurrences xs)"
  by (induction xs) (auto simp: distinct_removeAll)

lemma first_occurrences_distinct_id: "distinct xs \<Longrightarrow> first_occurrences xs = xs"
  by (induction xs) (auto simp: set_first_occurrences)

lemma length_first_occurrences_less:
  assumes "\<not> distinct xs"
  shows "length (first_occurrences xs) < length xs"
proof -
  have "length (first_occurrences xs) = card (set xs)"
    using distinct_card[OF distinct_first_occurrences, of xs] by (simp add: set_first_occurrences)
  moreover have "card (set xs) \<noteq> length xs"
    using assms card_distinct by blast
  moreover have "card (set xs) \<le> length xs" by (rule card_length)
  ultimately show ?thesis by linarith
qed

lemma ensure_unique_distinct_id: "distinct xs \<Longrightarrow> ensure_unique xs = xs"
  by (simp add: ensure_unique_first_occurrences first_occurrences_distinct_id)

text \<open>
  C3. \<open>ensure_unique\<close> returns each distinct coordinate exactly once, in the order of
  first occurrence: the result is the list of first occurrences, it has no repetition and
  the same elements as the input, and it consists of the entries at the positions
  before which the entry does not occur. An input without repetition is returned
  unchanged; an input with a repetition gives a strictly shorter result.
\<close>

theorem ensure_unique_first_occurrence_order:
  "ensure_unique xs = first_occurrences xs
   \<and> distinct (ensure_unique xs)
   \<and> set (ensure_unique xs) = set xs
   \<and> ensure_unique xs =
       map (\<lambda>i. xs ! i) (filter (\<lambda>i. \<forall>j<i. xs ! j \<noteq> xs ! i) [0..<length xs])
   \<and> (distinct xs \<longrightarrow> ensure_unique xs = xs)
   \<and> (\<not> distinct xs \<longrightarrow> length (ensure_unique xs) < length xs)"
proof -
  have "filter (is_first xs) [0..<length xs]
      = filter (\<lambda>i. \<forall>j<i. xs ! j \<noteq> xs ! i) [0..<length xs]"
    by (rule filter_cong) (simp_all add: is_first_iff)
  then have idx: "ensure_unique xs =
       map (\<lambda>i. xs ! i) (filter (\<lambda>i. \<forall>j<i. xs ! j \<noteq> xs ! i) [0..<length xs])"
    by (simp add: ensure_unique_is_first)
  have eq: "ensure_unique xs = first_occurrences xs"
    by (rule ensure_unique_first_occurrences)
  have dist: "distinct (ensure_unique xs)"
    unfolding eq by (rule distinct_first_occurrences)
  have elems: "set (ensure_unique xs) = set xs"
    unfolding eq by (rule set_first_occurrences)
  have same: "distinct xs \<longrightarrow> ensure_unique xs = xs"
    unfolding eq by (simp add: first_occurrences_distinct_id)
  have shorter: "\<not> distinct xs \<longrightarrow> length (ensure_unique xs) < length xs"
    unfolding eq by (simp add: length_first_occurrences_less)
  from eq dist elems idx same shorter show ?thesis by blast
qed

text \<open>
  Two inputs: one with the first and the second row repeated, one without repetition.
\<close>

theorem ensure_unique_first_occurrence_order_witness:
  "\<not> distinct [(3, 1), (1, 2), (3, 1), (0, 0), (1, 2 :: real) :: point]
   \<and> ensure_unique [(3, 1), (1, 2), (3, 1), (0, 0), (1, 2 :: real) :: point]
       = [(3, 1), (1, 2), (0, 0)]
   \<and> length (ensure_unique [(3, 1), (1, 2), (3, 1), (0, 0), (1, 2 :: real) :: point]) < 5
   \<and> distinct [(0, 0), (4, 0), (4, 2), (0, 2 :: real) :: point]
   \<and> ensure_unique [(0, 0), (4, 0), (4, 2), (0, 2 :: real) :: point]
       = [(0, 0), (4, 0), (4, 2), (0, 2)]"
  using ensure_unique_first_occurrence_order
          [of "[(3, 1), (1, 2), (3, 1), (0, 0), (1, 2 :: real) :: point]"]
        ensure_unique_first_occurrence_order
          [of "[(0, 0), (4, 0), (4, 2), (0, 2 :: real) :: point]"]
  by simp

subsection \<open>oriented_boundary\<close>

lemma exterior_indices_error: "exterior_indices points ring = Inl e \<Longrightarrow> e = NotInList"
proof -
  assume "exterior_indices points ring = Inl e"
  then have "collect (map (list_index points) ring) = Inl e"
    by (auto simp: exterior_indices_def split: sum.splits)
  then have "Inl e \<in> set (map (list_index points) ring)" by (rule collect_Inl_mem)
  then show "e = NotInList" by (auto simp: list_index_cases split: if_splits)
qed

lemma exterior_indices_Inl:
  assumes "xy \<in> set ring" and "xy \<notin> set points"
  shows "exterior_indices points ring = Inl NotInList"
proof -
  have "Inl NotInList \<in> set (map (list_index points) ring)"
    using assms list_index_Inl[of xy points] by force
  moreover have "\<forall>r \<in> set (map (list_index points) ring). \<forall>e. r = Inl e \<longrightarrow> e = NotInList"
    by (auto simp: list_index_cases split: if_splits)
  ultimately have "collect (map (list_index points) ring) = Inl NotInList"
    using collect_Inl by blast
  then show ?thesis by (simp add: exterior_indices_def)
qed

lemma exterior_indices_Inr:
  assumes "exterior_indices points ring = Inr loop"
  shows "loop = butlast (map (first_index points) ring) \<and> set ring \<subseteq> set points"
proof -
  obtain indices where c: "collect (map (list_index points) ring) = Inr indices"
    and l: "loop = butlast indices"
    using assms by (auto simp: exterior_indices_def split: sum.splits)
  have eq: "map (list_index points) ring = map Inr indices" using c by (rule collect_InrD)
  have sub: "set ring \<subseteq> set points"
  proof
    fix xy assume "xy \<in> set ring"
    then have "list_index points xy \<in> set (map (list_index points) ring)" by simp
    then have "list_index points xy \<in> set (map Inr indices)" unfolding eq .
    then show "xy \<in> set points" by (auto simp: list_index_cases split: if_splits)
  qed
  have "map (list_index points) ring = map Inr (map (first_index points) ring)"
    using sub by (auto simp: list_index_cases)
  then have "map Inr indices = (map Inr (map (first_index points) ring) :: (error + nat) list)"
    using eq by simp
  then have "indices = map (first_index points) ring"
    by (rule map_injective) simp
  then show ?thesis using l sub by simp
qed

text \<open>
  C9. If a coordinate of an oriented polygon's ring does not occur in the vertex array,
  \<open>oriented_boundary\<close> raises the \<^verbatim>\<open>ValueError\<close> of \<^verbatim>\<open>list.index\<close>: it returns no
  loop at all, neither the loops of the other polygons nor an index of a nearby vertex.
\<close>

theorem oriented_boundary_lookup_failure:
  assumes "edge_segments points boundary_edges = Inr edges"
    and "ring \<in> set (polygonize edges)"
    and "xy \<in> set (orient ring)"
    and "xy \<notin> set points"
  shows "oriented_boundary polygonize orient points boundary_edges = Inl NotInList"
proof -
  let ?rs = "map (\<lambda>p. exterior_indices points (orient p)) (polygonize edges)"
  have "Inl NotInList \<in> set ?rs"
    using assms(2) exterior_indices_Inl[OF assms(3,4)] by force
  moreover have "\<forall>r \<in> set ?rs. \<forall>e. r = Inl e \<longrightarrow> e = NotInList"
  proof (intro ballI allI impI)
    fix r e assume "r \<in> set ?rs" and "r = Inl e"
    then obtain p where "exterior_indices points (orient p) = Inl e" by auto
    then show "e = NotInList" by (rule exterior_indices_error)
  qed
  ultimately have "collect ?rs = Inl NotInList" using collect_Inl by blast
  then show ?thesis by (simp add: oriented_boundary_def assms(1))
qed

text \<open>
  A triangle whose ring comes back moved by \<open>1/10\<close>: the lookup of \<open>(11/10, 0)\<close> fails.
\<close>

theorem oriented_boundary_lookup_failure_witness:
  "edge_segments [(0, 0), (1, 0), (0, 1 :: real) :: point] [(0, 1), (1, 2), (2, 0)]
     = Inr [((0, 0), (1, 0)), ((1, 0), (0, 1)), ((0, 1), (0, 0))]
   \<and> [(1 / 10, 0), (11 / 10, 0), (1 / 10, 1), (1 / 10, 0)]
       \<in> set (shifted_polygonize [((0, 0), (1, 0)), ((1, 0), (0, 1)), ((0, 1), (0, 0))])
   \<and> (11 / 10, 0) \<in> set (keep_orientation [(1 / 10, 0), (11 / 10, 0), (1 / 10, 1), (1 / 10, 0)])
   \<and> (11 / 10, 0) \<notin> set [(0, 0), (1, 0), (0, 1 :: real) :: point]
   \<and> oriented_boundary shifted_polygonize keep_orientation
         [(0, 0), (1, 0), (0, 1)] [(0, 1), (1, 2), (2, 0)] = Inl NotInList"
proof -
  have segs: "edge_segments [(0, 0), (1, 0), (0, 1 :: real) :: point] [(0, 1), (1, 2), (2, 0)]
     = Inr [((0, 0), (1, 0)), ((1, 0), (0, 1)), ((0, 1), (0, 0))]"
    by (simp add: edge_segments_def np_get_def)
  have ring: "[(1 / 10, 0), (11 / 10, 0), (1 / 10, 1), (1 / 10, 0)]
       \<in> set (shifted_polygonize [((0, 0), (1, 0)), ((1, 0), (0, 1)), ((0, 1), (0, 0))])"
    by (simp add: shifted_polygonize_def chain_polygonize_def padd_def)
  have mem: "(11 / 10, 0) \<in> set (keep_orientation [(1 / 10, 0), (11 / 10, 0), (1 / 10, 1), (1 / 10, 0 :: real) :: point])"
    by (simp add: keep_orientation_def)
  have out: "(11 / 10, 0) \<notin> set [(0, 0), (1, 0), (0, 1 :: real) :: point]"
    by simp
  from oriented_boundary_lookup_failure[where polygonize = shifted_polygonize
        and orient = keep_orientation, OF segs ring mem out] segs ring mem out
  show ?thesis by blast
qed

text \<open>
  C10. When \<open>oriented_boundary\<close> returns, there is one loop per polygon and one index
  per coordinate of the polygon's ring without its closing coordinate; every index is in
  range, the vertex at the index is that coordinate, and no smaller index holds it.
\<close>

theorem oriented_boundary_first_occurrence:
  assumes "oriented_boundary polygonize orient points boundary_edges = Inr loops"
    and "edge_segments points boundary_edges = Inr edges"
  shows "list_all2
           (\<lambda>loop ring.
              list_all2 (\<lambda>i xy. i < length points \<and> points ! i = xy \<and> (\<forall>j<i. points ! j \<noteq> xy))
                loop (butlast (orient ring)))
           loops (polygonize edges)"
proof -
  let ?rs = "map (\<lambda>p. exterior_indices points (orient p)) (polygonize edges)"
  have "collect ?rs = Inr loops" using assms by (simp add: oriented_boundary_def)
  then have eq: "?rs = map Inr loops" by (rule collect_InrD)
  have len: "length loops = length (polygonize edges)"
    using arg_cong[OF eq, of length] by simp
  show ?thesis
  proof (rule list_all2_all_nthI[OF len])
    fix k assume k: "k < length loops"
    let ?ring = "orient (polygonize edges ! k)"
    have "?rs ! k = Inr (loops ! k)" unfolding eq using k by simp
    then have "exterior_indices points ?ring = Inr (loops ! k)" using k len by simp
    from exterior_indices_Inr[OF this]
    have loop: "loops ! k = map (first_index points) (butlast ?ring)"
      and sub: "set ?ring \<subseteq> set points"
      by (simp_all add: map_butlast)
    have mem: "\<forall>xy \<in> set (butlast ?ring). xy \<in> set points"
      using sub by (meson in_set_butlastD subsetD)
    have "\<forall>m < length (butlast ?ring).
        first_index points (butlast ?ring ! m) < length points
        \<and> points ! first_index points (butlast ?ring ! m) = butlast ?ring ! m
        \<and> (\<forall>j<first_index points (butlast ?ring ! m). points ! j \<noteq> butlast ?ring ! m)"
    proof (intro allI impI)
      fix m assume "m < length (butlast ?ring)"
      then have "butlast ?ring ! m \<in> set (butlast ?ring)" by (rule nth_mem)
      then have "butlast ?ring ! m \<in> set points" using mem by simp
      then show "first_index points (butlast ?ring ! m) < length points
        \<and> points ! first_index points (butlast ?ring ! m) = butlast ?ring ! m
        \<and> (\<forall>j<first_index points (butlast ?ring ! m). points ! j \<noteq> butlast ?ring ! m)"
        by (rule first_index_spec)
    qed
    then show "list_all2 (\<lambda>i xy. i < length points \<and> points ! i = xy \<and> (\<forall>j<i. points ! j \<noteq> xy))
        (loops ! k) (butlast ?ring)"
      unfolding loop list_all2_conv_all_nth by simp
  qed
qed

text \<open>
  A vertex array that holds \<open>(0, 0)\<close> twice, at the indices 0 and 2. The boundary edges
  use index 2; the loop that comes back uses index 0.
\<close>

theorem oriented_boundary_first_occurrence_witness:
  "edge_segments [(0, 0), (1, 0), (0, 0), (0, 1 :: real) :: point] [(2, 1), (1, 3), (3, 2)]
     = Inr [((0, 0), (1, 0)), ((1, 0), (0, 1)), ((0, 1), (0, 0))]
   \<and> oriented_boundary chain_polygonize keep_orientation
         [(0, 0), (1, 0), (0, 0), (0, 1)] [(2, 1), (1, 3), (3, 2)] = Inr [ [0, 1, 3] ]
   \<and> list_all2
        (\<lambda>loop ring.
           list_all2
             (\<lambda>i xy. i < length [(0, 0), (1, 0), (0, 0), (0, 1 :: real) :: point]
                \<and> [(0, 0), (1, 0), (0, 0), (0, 1)] ! i = xy
                \<and> (\<forall>j<i. [(0, 0), (1, 0), (0, 0), (0, 1)] ! j \<noteq> xy))
             loop (butlast (keep_orientation ring)))
        [ [0, 1, 3] ]
        (chain_polygonize [((0, 0), (1, 0)), ((1, 0), (0, 1)), ((0, 1), (0, 0))])"
proof -
  have segs: "edge_segments [(0, 0), (1, 0), (0, 0), (0, 1 :: real) :: point] [(2, 1), (1, 3), (3, 2)]
     = Inr [((0, 0), (1, 0)), ((1, 0), (0, 1)), ((0, 1), (0, 0))]"
    by (simp add: edge_segments_def np_get_def)
  have run: "oriented_boundary chain_polygonize keep_orientation
         [(0, 0), (1, 0), (0, 0), (0, 1 :: real) :: point] [(2, 1), (1, 3), (3, 2)] = Inr [ [0, 1, 3] ]"
    by (simp add: oriented_boundary_def segs chain_polygonize_def keep_orientation_def
        exterior_indices_def)
  from oriented_boundary_first_occurrence[where polygonize = chain_polygonize
        and orient = keep_orientation, OF run segs] segs run
  show ?thesis by blast
qed

subsection \<open>generate_mesh\<close>

lemma ensure_unique_Nil_iff: "ensure_unique xs = [] \<longleftrightarrow> xs = []"
proof -
  have "set (ensure_unique xs) = set xs"
    by (simp add: ensure_unique_first_occurrences set_first_occurrences)
  then show ?thesis by (metis set_empty)
qed

lemma bounding_box_Nil: "bounding_box [] = Inl EmptyReduction"
  by (simp add: bounding_box_def array_min_def)

lemma bounding_box_Cons:
  "bounding_box (p # ps) =
     Inr (fold min (map fst ps) (fst p), fold max (map fst ps) (fst p) - fold min (map fst ps) (fst p),
          fold min (map snd ps) (snd p), fold max (map snd ps) (snd p) - fold min (map snd ps) (snd p))"
  by (simp add: bounding_box_def array_min_def array_ptp_def)

lemma combined_Nil_iff:
  "concat (ensure_unique poly_coords # map ensure_unique hs) = []
     \<longleftrightarrow> concat (poly_coords # hs) = []"
  by (auto simp: ensure_unique_Nil_iff)

lemma generate_mesh_info_rejects:
  "generate_mesh_info hull_facets centroid poly_coords hole_coords True (Some b) =
     Inl (if concat (poly_coords # (case hole_coords of None \<Rightarrow> [] | Some hs \<Rightarrow> hs)) = []
          then EmptyReduction else InvalidConfiguration)"
proof -
  let ?hs = "case hole_coords of None \<Rightarrow> [] | Some hs \<Rightarrow> hs"
  let ?coords0 = "concat (ensure_unique poly_coords # map ensure_unique ?hs)"
  have eq: "generate_mesh_info hull_facets centroid poly_coords hole_coords True (Some b) =
      (case bounding_box ?coords0 of
         Inl e \<Rightarrow> Inl e
       | Inr box \<Rightarrow> Inl InvalidConfiguration)"
    by (simp add: generate_mesh_info_def Let_def outer_facets_def
        split: sum.splits prod.splits del: concat.simps)
  show ?thesis
  proof (cases ?coords0)
    case Nil
    then have "concat (poly_coords # ?hs) = []" using combined_Nil_iff by blast
    moreover have "bounding_box ?coords0 = Inl EmptyReduction"
      unfolding Nil by (rule bounding_box_Nil)
    ultimately show ?thesis unfolding eq by simp
  next
    case (Cons p ps)
    then have "concat (poly_coords # ?hs) \<noteq> []"
      using combined_Nil_iff[of poly_coords ?hs] by simp
    moreover have "\<exists>box. bounding_box ?coords0 = Inr box"
      unfolding Cons bounding_box_Cons by blast
    ultimately show ?thesis unfolding eq by auto
  qed
qed

text \<open>
  C1, as the code has it. A call with \<open>convex_hull = True\<close> and a boundary subset
  returns an error without any engine invocation, whatever the engine, the other
  arguments and the options are. The error is the invalid-configuration error when the
  outer ring and the holes hold at least one coordinate. With no coordinate at all the
  bounding box is computed over an empty array, before the configuration is looked at,
  and the error is that of the empty reduction.
\<close>

theorem convex_hull_with_boundary_rejected:
  "generate_mesh build hull_facets centroid edge_max poly_coords hole_coords min_points
       max_edge_length True (Some b) kwargs =
     Some ([], Inl (if concat (poly_coords # (case hole_coords of None \<Rightarrow> [] | Some hs \<Rightarrow> hs)) = []
                    then EmptyReduction else InvalidConfiguration))"
  by (simp add: generate_mesh_def generate_mesh_info_rejects del: concat.simps)

text \<open>The rectangle with its hole: the configuration is rejected.\<close>

theorem convex_hull_with_boundary_rejected_witness:
  "generate_mesh example_build example_hull example_centroid example_edge_max example_rect
       (Some [example_hole]) (Some 5) (Some 1) True (Some [(0, 0)]) example_kwargs =
     Some ([], Inl InvalidConfiguration)"
  using convex_hull_with_boundary_rejected
          [of example_build example_hull example_centroid example_edge_max example_rect
              "Some [example_hole]" "Some 5" "Some 1" "[(0, 0)]" example_kwargs]
  by (simp add: example_rect_def)

text \<open>An empty outer ring and no hole: the error is not the configuration error.\<close>

theorem empty_ring_fails_in_reduction:
  "generate_mesh example_build example_hull example_centroid example_edge_max []
       None None None True (Some [(0, 0)]) example_kwargs =
     Some ([], Inl EmptyReduction)
   \<and> EmptyReduction \<noteq> InvalidConfiguration"
  by (simp add: generate_mesh_def generate_mesh_info_def ensure_unique_distinct_id
      bounding_box_Nil)

subsection \<open>The refinement loop\<close>

lemma refine_loop_exit:
  assumes "refine_loop build edge_max info r0 mp target kw calls points triangles ml = Some y"
  shows "edge_max points triangles = Inr ml \<Longrightarrow> snd y = Inr (ps, ts) \<Longrightarrow>
         (\<exists>m. edge_max ps ts = Inr m \<and> \<not> exceeds m target) \<and> mp \<le> int (length ps)"
  using assms
proof (induction build edge_max info r0 mp target kw calls points triangles ml y
    rule: refine_loop.raw_induct[rotated 1, consumes 1, case_names 1])
  case (1 rl build edge_max info r0 mp target kw calls points triangles ml y)
  then show ?case by (auto split: if_splits sum.splits)
qed

lemma scale_max_volume_Inr:
  "scale_max_volume f kw = Inr kw' \<Longrightarrow>
     \<exists>v. kw ''max_volume'' = Some (Num v) \<and> kw' = kw(''max_volume'' \<mapsto> Num (v * f))"
  by (auto simp: scale_max_volume_def split: option.splits optval.splits)

text \<open>
  The loop and the loop stopped after a number of iterations agree: the loop returns a
  result exactly when, for some number of iterations, the stopped loop has it.
\<close>

lemma refine_loop_upto_of_loop:
  assumes "refine_loop build edge_max info r0 mp target kw calls points triangles ml = Some y"
  shows "\<exists>fuel. refine_loop_upto fuel build edge_max info r0 mp target kw calls points triangles ml
           = (fst y, Some (snd y))"
  using assms
proof (induction build edge_max info r0 mp target kw calls points triangles ml y
    rule: refine_loop.raw_induct[rotated 1, consumes 1, case_names 1])
  case (1 rl build edge_max info r0 mp target kw calls points triangles ml y)
  show ?case
  proof (cases "int (length points) < mp \<or> exceeds ml target")
    case False
    then have "refine_loop_upto 0 build edge_max info r0 mp target kw calls points triangles ml
        = (fst y, Some (snd y))"
      using "1.hyps" by auto
    then show ?thesis by blast
  next
    case True
    note cond = this
    show ?thesis
    proof (cases "kw ''mesh_info'' \<noteq> None")
      case True
      then have "refine_loop_upto (Suc 0) build edge_max info r0 mp target kw calls points
          triangles ml = (fst y, Some (snd y))"
        using "1.hyps" cond by auto
      then show ?thesis by blast
    next
      case False
      note key = this
      show ?thesis
      proof (cases "build info kw")
        case (Inl e)
        then have "refine_loop_upto (Suc 0) build edge_max info r0 mp target kw calls points
            triangles ml = (fst y, Some (snd y))"
          using "1.hyps" cond key by auto
        then show ?thesis by blast
      next
        case (Inr m)
        note b = this
        show ?thesis
        proof (cases "edge_max (map (\<lambda>p. padd p r0) (mesh_points m)) (mesh_elements m)")
          case (Inl e)
          then have "refine_loop_upto (Suc 0) build edge_max info r0 mp target kw calls points
              triangles ml = (fst y, Some (snd y))"
            using "1.hyps" cond key b by auto
          then show ?thesis by blast
        next
          case (Inr ml')
          note em = this
          show ?thesis
          proof (cases "scale_max_volume (shrink_factor target ml') kw")
            case (Inl e)
            then have "refine_loop_upto (Suc 0) build edge_max info r0 mp target kw calls points
                triangles ml = (fst y, Some (snd y))"
              using "1.hyps" cond key b em by auto
            then show ?thesis by blast
          next
            case (Inr kw')
            have rec: "rl build edge_max info r0 mp target kw' (calls @ [(info, kw)])
                  (map (\<lambda>p. padd p r0) (mesh_points m)) (mesh_elements m) ml' = Some y"
              using "1.hyps" cond key b em Inr by simp
            from "1.IH"[OF rec] obtain fuel where
              "refine_loop_upto fuel build edge_max info r0 mp target kw' (calls @ [(info, kw)])
                  (map (\<lambda>p. padd p r0) (mesh_points m)) (mesh_elements m) ml'
                = (fst y, Some (snd y))"
              by blast
            then have "refine_loop_upto (Suc fuel) build edge_max info r0 mp target kw calls
                points triangles ml = (fst y, Some (snd y))"
              using cond key b em Inr by simp
            then show ?thesis by blast
          qed
        qed
      qed
    qed
  qed
qed

lemma refine_loop_of_upto:
  assumes "refine_loop_upto fuel build edge_max info r0 mp target kw calls points triangles ml
             = (calls', Some result)"
  shows "refine_loop build edge_max info r0 mp target kw calls points triangles ml
           = Some (calls', result)"
  using assms
proof (induction fuel arbitrary: kw calls points triangles ml)
  case 0
  then show ?case
    by (subst refine_loop.simps) (auto split: if_splits)
next
  case (Suc fuel)
  show ?case
  proof (cases "int (length points) < mp \<or> exceeds ml target")
    case False
    then show ?thesis using Suc.prems by (subst refine_loop.simps) auto
  next
    case True
    note cond = this
    show ?thesis
    proof (cases "kw ''mesh_info'' \<noteq> None")
      case True
      then show ?thesis using Suc.prems cond by (subst refine_loop.simps) auto
    next
      case False
      note key = this
      show ?thesis
      proof (cases "build info kw")
        case (Inl e)
        then show ?thesis using Suc.prems cond key by (subst refine_loop.simps) auto
      next
        case (Inr m)
        note b = this
        show ?thesis
        proof (cases "edge_max (map (\<lambda>p. padd p r0) (mesh_points m)) (mesh_elements m)")
          case (Inl e)
          then show ?thesis using Suc.prems cond key b by (subst refine_loop.simps) auto
        next
          case (Inr ml')
          note em = this
          show ?thesis
          proof (cases "scale_max_volume (shrink_factor target ml') kw")
            case (Inl e)
            then show ?thesis using Suc.prems cond key b em by (subst refine_loop.simps) auto
          next
            case (Inr kw')
            have "refine_loop_upto fuel build edge_max info r0 mp target kw' (calls @ [(info, kw)])
                  (map (\<lambda>p. padd p r0) (mesh_points m)) (mesh_elements m) ml'
                = (calls', Some result)"
              using Suc.prems cond key b em Inr by simp
            from Suc.IH[OF this] show ?thesis
              using cond key b em Inr by (subst refine_loop.simps) simp
          qed
        qed
      qed
    qed
  qed
qed

lemma refine_loop_upto_step:
  assumes "int (length points) < mp \<or> exceeds ml target"
    and "kw ''mesh_info'' = None"
    and "build info kw = Inr m"
    and "edge_max (map (\<lambda>p. padd p r0) (mesh_points m)) (mesh_elements m) = Inr ml'"
    and "scale_max_volume (shrink_factor target ml') kw = Inr kw'"
  shows "refine_loop_upto (Suc fuel) build edge_max info r0 mp target kw calls points triangles ml
           = refine_loop_upto fuel build edge_max info r0 mp target kw' (calls @ [(info, kw)])
               (map (\<lambda>p. padd p r0) (mesh_points m)) (mesh_elements m) ml'"
  using assms by simp

lemma refine_loop_upto_done:
  assumes "\<not> (int (length points) < mp \<or> exceeds ml target)"
  shows "refine_loop_upto fuel build edge_max info r0 mp target kw calls points triangles ml
           = (calls, Some (Inr (points, triangles)))"
  using assms by (cases fuel) simp_all

lemma refine_loop_upto_bounds:
  assumes "kw ''max_volume'' = Some (Num v)"
  shows "\<exists>rest. fst (refine_loop_upto fuel build edge_max info r0 mp target kw calls points
                     triangles ml) = calls @ rest
              \<and> area_bounds_ok build edge_max r0 target v rest"
  using assms
proof (induction fuel arbitrary: kw calls points triangles ml v)
  case 0
  then show ?case by simp
next
  case (Suc fuel)
  show ?case
  proof (cases "int (length points) < mp \<or> exceeds ml target")
    case False
    then show ?thesis by simp
  next
    case True
    note cond = this
    show ?thesis
    proof (cases "kw ''mesh_info'' \<noteq> None")
      case True
      then show ?thesis using cond by simp
    next
      case False
      note key = this
      show ?thesis
      proof (cases "build info kw")
        case (Inl e)
        then show ?thesis using cond key Suc.prems by simp
      next
        case (Inr m)
        note b = this
        show ?thesis
        proof (cases "edge_max (map (\<lambda>p. padd p r0) (mesh_points m)) (mesh_elements m)")
          case (Inl e)
          then show ?thesis using cond key b Suc.prems by simp
        next
          case (Inr ml')
          note em = this
          show ?thesis
          proof (cases "scale_max_volume (shrink_factor target ml') kw")
            case (Inl e)
            then show ?thesis using cond key b em Suc.prems by simp
          next
            case (Inr kw')
            then have kw': "kw' ''max_volume'' = Some (Num (v * shrink_factor target ml'))"
              using scale_max_volume_Inr[OF Inr] Suc.prems by auto
            from Suc.IH[where kw = kw' and v = "v * shrink_factor target ml'"
                and calls = "calls @ [(info, kw)]"
                and points = "map (\<lambda>p. padd p r0) (mesh_points m)"
                and triangles = "mesh_elements m" and ml = ml', OF kw']
            obtain rest where
              r: "fst (refine_loop_upto fuel build edge_max info r0 mp target kw'
                    (calls @ [(info, kw)]) (map (\<lambda>p. padd p r0) (mesh_points m))
                    (mesh_elements m) ml') = (calls @ [(info, kw)]) @ rest"
                "area_bounds_ok build edge_max r0 target (v * shrink_factor target ml') rest"
              by blast
            have "area_bounds_ok build edge_max r0 target v ((info, kw) # rest)"
              using r(2) Suc.prems b em by simp
            moreover have "fst (refine_loop_upto (Suc fuel) build edge_max info r0 mp target kw
                calls points triangles ml) = calls @ (info, kw) # rest"
              using r(1) cond key b em Inr by simp
            ultimately show ?thesis by blast
          qed
        qed
      qed
    qed
  qed
qed

lemma refine_loop_upto_forwarding:
  assumes "\<forall>key. key \<noteq> ''max_volume'' \<longrightarrow> kw key = kwargs key"
    and "\<forall>c \<in> set calls. Q c"
    and "\<And>k. \<forall>key. key \<noteq> ''max_volume'' \<longrightarrow> k key = kwargs key \<Longrightarrow> Q (info, k)"
  shows "\<forall>c \<in> set (fst (refine_loop_upto fuel build edge_max info r0 mp target kw calls points
                          triangles ml)). Q c"
  using assms(1,2)
proof (induction fuel arbitrary: kw calls points triangles ml)
  case 0
  then show ?case by simp
next
  case (Suc fuel)
  have Qkw: "Q (info, kw)" using Suc.prems(1) assms(3) by blast
  then have Qcalls: "\<forall>c \<in> set (calls @ [(info, kw)]). Q c" using Suc.prems(2) by auto
  show ?case
  proof (cases "int (length points) < mp \<or> exceeds ml target")
    case False
    then show ?thesis using Suc.prems(2) by simp
  next
    case True
    note cond = this
    show ?thesis
    proof (cases "kw ''mesh_info'' \<noteq> None")
      case True
      then show ?thesis using cond Suc.prems(2) by simp
    next
      case False
      note key = this
      show ?thesis
      proof (cases "build info kw")
        case (Inl e)
        then show ?thesis using cond key Qcalls by simp
      next
        case (Inr m)
        note b = this
        show ?thesis
        proof (cases "edge_max (map (\<lambda>p. padd p r0) (mesh_points m)) (mesh_elements m)")
          case (Inl e)
          then show ?thesis using cond key b Qcalls by simp
        next
          case (Inr ml')
          note em = this
          show ?thesis
          proof (cases "scale_max_volume (shrink_factor target ml') kw")
            case (Inl e)
            then show ?thesis using cond key b em Qcalls by simp
          next
            case (Inr kw')
            then have kw': "\<forall>key. key \<noteq> ''max_volume'' \<longrightarrow> kw' key = kwargs key"
              using scale_max_volume_Inr[OF Inr] Suc.prems(1) by auto
            have "\<forall>c \<in> set (fst (refine_loop_upto fuel build edge_max info r0 mp target kw'
                    (calls @ [(info, kw)]) (map (\<lambda>p. padd p r0) (mesh_points m))
                    (mesh_elements m) ml')). Q c"
              by (rule Suc.IH[where kw = kw' and calls = "calls @ [(info, kw)]", OF kw' Qcalls])
            then show ?thesis using cond key b em Inr by simp
          qed
        qed
      qed
    qed
  qed
qed

text \<open>While the loop is running, every iteration has made one invocation.\<close>

lemma refine_loop_upto_running:
  assumes "snd (refine_loop_upto fuel build edge_max info r0 mp target kw calls points triangles ml)
             = None"
  shows "length (fst (refine_loop_upto fuel build edge_max info r0 mp target kw calls points
                        triangles ml)) = length calls + fuel"
  using assms
proof (induction fuel arbitrary: kw calls points triangles ml)
  case 0
  then show ?case by (simp split: if_splits)
next
  case (Suc fuel)
  from Suc.prems show ?case
    by (auto split: if_splits sum.splits dest!: Suc.IH)
qed

text \<open>One more iteration keeps the invocations made so far, and a result once it is there.\<close>

lemma refine_loop_upto_Suc:
  "\<exists>rest. fst (refine_loop_upto (Suc fuel) build edge_max info r0 mp target kw calls points
                  triangles ml)
           = fst (refine_loop_upto fuel build edge_max info r0 mp target kw calls points
                    triangles ml) @ rest"
proof (induction fuel arbitrary: kw calls points triangles ml)
  case 0
  show ?case by (auto split: sum.splits)
next
  case (Suc fuel)
  show ?case
  proof (cases "int (length points) < mp \<or> exceeds ml target")
    case False
    then show ?thesis by simp
  next
    case True
    note cond = this
    show ?thesis
    proof (cases "kw ''mesh_info'' \<noteq> None")
      case True
      then show ?thesis using cond by simp
    next
      case False
      note key = this
      show ?thesis
      proof (cases "build info kw")
        case (Inl e)
        then show ?thesis using cond key by simp
      next
        case (Inr m)
        note b = this
        show ?thesis
        proof (cases "edge_max (map (\<lambda>p. padd p r0) (mesh_points m)) (mesh_elements m)")
          case (Inl e)
          then show ?thesis using cond key b by simp
        next
          case (Inr ml')
          note em = this
          show ?thesis
          proof (cases "scale_max_volume (shrink_factor target ml') kw")
            case (Inl e)
            then show ?thesis using cond key b em by simp
          next
            case (Inr kw')
            have k: "kw ''mesh_info'' = None" using key by simp
            have s1: "refine_loop_upto (Suc (Suc fuel)) build edge_max info r0 mp target kw calls
                  points triangles ml
                = refine_loop_upto (Suc fuel) build edge_max info r0 mp target kw'
                    (calls @ [(info, kw)]) (map (\<lambda>p. padd p r0) (mesh_points m))
                    (mesh_elements m) ml'"
              using cond k b em Inr by (rule refine_loop_upto_step)
            have s2: "refine_loop_upto (Suc fuel) build edge_max info r0 mp target kw calls
                  points triangles ml
                = refine_loop_upto fuel build edge_max info r0 mp target kw'
                    (calls @ [(info, kw)]) (map (\<lambda>p. padd p r0) (mesh_points m))
                    (mesh_elements m) ml'"
              using cond k b em Inr by (rule refine_loop_upto_step)
            show ?thesis unfolding s1 s2 by (rule Suc.IH)
          qed
        qed
      qed
    qed
  qed
qed

text \<open>
  How a call starts: either it ends before the loop, with at most the first invocation
  made, or it enters the loop after the first invocation.
\<close>

lemma generate_mesh_start:
  obtains
    (early) calls result where
      "generate_mesh build hull_facets centroid edge_max poly_coords hole_coords min_points
         max_edge_length convex_hull boundary kwargs = Some (calls, result)"
      "\<And>fuel. generate_mesh_upto fuel build hull_facets centroid edge_max poly_coords hole_coords
         min_points max_edge_length convex_hull boundary kwargs = (calls, Some result)"
      "calls = [] \<or> (\<exists>info. calls = [(info, kwargs)])"
      "(\<exists>e. result = Inl e)
       \<or> (min_points = None \<and> (case max_edge_length of None \<Rightarrow> True | Some L \<Rightarrow> L \<le> 0))"
  | (loop) info r0 dx dy m max_length where
      "generate_mesh_info hull_facets centroid poly_coords hole_coords convex_hull boundary
         = Inr (info, r0, dx, dy)"
      "kwargs ''mesh_info'' = None"
      "build info kwargs = Inr m"
      "edge_max (map (\<lambda>p. padd p r0) (mesh_points m)) (mesh_elements m) = Inr max_length"
      "generate_mesh build hull_facets centroid edge_max poly_coords hole_coords min_points
         max_edge_length convex_hull boundary kwargs =
       refine_loop build edge_max info r0 (case min_points of None \<Rightarrow> 0 | Some n \<Rightarrow> n)
         (edge_target max_edge_length) (kwargs(''max_volume'' \<mapsto> Num (dx * dy / 100)))
         [(info, kwargs)] (map (\<lambda>p. padd p r0) (mesh_points m)) (mesh_elements m) max_length"
      "\<And>fuel. generate_mesh_upto fuel build hull_facets centroid edge_max poly_coords hole_coords
         min_points max_edge_length convex_hull boundary kwargs =
       refine_loop_upto fuel build edge_max info r0 (case min_points of None \<Rightarrow> 0 | Some n \<Rightarrow> n)
         (edge_target max_edge_length) (kwargs(''max_volume'' \<mapsto> Num (dx * dy / 100)))
         [(info, kwargs)] (map (\<lambda>p. padd p r0) (mesh_points m)) (mesh_elements m) max_length"
proof (cases "generate_mesh_info hull_facets centroid poly_coords hole_coords convex_hull boundary")
  case (Inl e)
  show ?thesis
    by (rule early[of "[]" "Inl e"]) (simp_all add: generate_mesh_def generate_mesh_upto_def Inl)
next
  case (Inr t)
  then obtain info r0 dx dy where
    gi: "generate_mesh_info hull_facets centroid poly_coords hole_coords convex_hull boundary
           = Inr (info, r0, dx, dy)"
    by (cases t) auto
  show ?thesis
  proof (cases "kwargs ''mesh_info'' \<noteq> None")
    case True
    show ?thesis
      by (rule early[of "[]" "Inl TypeError"])
         (use True in \<open>simp_all add: generate_mesh_def generate_mesh_upto_def gi\<close>)
  next
    case False
    then have key: "kwargs ''mesh_info'' = None" by simp
    show ?thesis
    proof (cases "build info kwargs")
      case (Inl e)
      show ?thesis
        by (rule early[of "[(info, kwargs)]" "Inl e"])
           (simp_all add: generate_mesh_def generate_mesh_upto_def gi key Inl)
    next
      case b: (Inr m)
      show ?thesis
      proof (cases "min_points = None
                      \<and> (case max_edge_length of None \<Rightarrow> True | Some L \<Rightarrow> L \<le> 0)")
        case True
        show ?thesis
          by (rule early[of "[(info, kwargs)]"
                "Inr (map (\<lambda>p. padd p r0) (mesh_points m), mesh_elements m)"])
             (use True in \<open>simp_all add: generate_mesh_def generate_mesh_upto_def gi key b Let_def\<close>)
      next
        case False
        note nt = this
        have unf: "generate_mesh build hull_facets centroid edge_max poly_coords hole_coords
            min_points max_edge_length convex_hull boundary kwargs =
            (case edge_max (map (\<lambda>p. padd p r0) (mesh_points m)) (mesh_elements m) of
               Inl e \<Rightarrow> Some ([(info, kwargs)], Inl e)
             | Inr max_length \<Rightarrow>
                refine_loop build edge_max info r0 (case min_points of None \<Rightarrow> 0 | Some n \<Rightarrow> n)
                  (edge_target max_edge_length)
                  (kwargs(''max_volume'' \<mapsto> Num (dx * dy / 100)))
                  [(info, kwargs)] (map (\<lambda>p. padd p r0) (mesh_points m)) (mesh_elements m)
                  max_length)"
          unfolding generate_mesh_def gi Let_def
          by (simp only: sum.case prod.case key b if_not_P[OF nt] simp_thms if_False)
        have unf': "generate_mesh_upto fuel build hull_facets centroid edge_max poly_coords
            hole_coords min_points max_edge_length convex_hull boundary kwargs =
            (case edge_max (map (\<lambda>p. padd p r0) (mesh_points m)) (mesh_elements m) of
               Inl e \<Rightarrow> ([(info, kwargs)], Some (Inl e))
             | Inr max_length \<Rightarrow>
                refine_loop_upto fuel build edge_max info r0
                  (case min_points of None \<Rightarrow> 0 | Some n \<Rightarrow> n)
                  (edge_target max_edge_length)
                  (kwargs(''max_volume'' \<mapsto> Num (dx * dy / 100)))
                  [(info, kwargs)] (map (\<lambda>p. padd p r0) (mesh_points m)) (mesh_elements m)
                  max_length)" for fuel
          unfolding generate_mesh_upto_def gi Let_def
          by (simp only: sum.case prod.case key b if_not_P[OF nt] simp_thms if_False)
        show ?thesis
        proof (cases "edge_max (map (\<lambda>p. padd p r0) (mesh_points m)) (mesh_elements m)")
          case (Inl e)
          show ?thesis
            by (rule early[of "[(info, kwargs)]" "Inl e"]) (simp_all add: unf unf' Inl)
        next
          case (Inr max_length)
          show ?thesis
            by (rule loop[OF gi key b Inr]) (simp_all add: unf unf' Inr)
        qed
      qed
    qed
  qed
qed

lemma generate_mesh_info_box:
  assumes "generate_mesh_info hull_facets centroid poly_coords hole_coords convex_hull boundary
             = Inr (info, r0, dx, dy)"
  shows "\<exists>xmin ymin.
           bounding_box (concat (ensure_unique poly_coords
              # map ensure_unique (case hole_coords of None \<Rightarrow> [] | Some hs \<Rightarrow> hs)))
             = Inr (xmin, dx, ymin, dy)
           \<and> r0 = (xmin + dx / 2, ymin + dy / 2)"
  using assms
  by (simp add: generate_mesh_info_def Let_def split: sum.splits prod.splits del: concat.simps)

text \<open>
  A call returns a result exactly when, for some number of iterations, the call stopped
  after that many iterations has it, with the same invocations.
\<close>

lemma generate_mesh_upto_complete:
  assumes "generate_mesh build hull_facets centroid edge_max poly_coords hole_coords min_points
             max_edge_length convex_hull boundary kwargs = Some (calls, result)"
  shows "\<exists>fuel. generate_mesh_upto fuel build hull_facets centroid edge_max poly_coords hole_coords
           min_points max_edge_length convex_hull boundary kwargs = (calls, Some result)"
proof (cases rule: generate_mesh_start[of build hull_facets centroid edge_max poly_coords
      hole_coords min_points max_edge_length convex_hull boundary kwargs])
  case (early calls' result')
  then show ?thesis using assms by auto
next
  case (loop info r0 dx dy m max_length)
  from refine_loop_upto_of_loop[OF assms[unfolded loop(5)]]
  show ?thesis unfolding loop(6) by simp
qed

lemma generate_mesh_of_upto:
  assumes "generate_mesh_upto fuel build hull_facets centroid edge_max poly_coords hole_coords
             min_points max_edge_length convex_hull boundary kwargs = (calls, Some result)"
  shows "generate_mesh build hull_facets centroid edge_max poly_coords hole_coords min_points
           max_edge_length convex_hull boundary kwargs = Some (calls, result)"
proof (cases rule: generate_mesh_start[of build hull_facets centroid edge_max poly_coords
      hole_coords min_points max_edge_length convex_hull boundary kwargs])
  case (early calls' result')
  then show ?thesis using assms by auto
next
  case (loop info r0 dx dy m max_length)
  from refine_loop_of_upto[OF assms[unfolded loop(6)]]
  show ?thesis unfolding loop(5) .
qed

text \<open>
  C4. When a call with a minimum vertex count and a positive target edge length returns
  a mesh, the measured maximum edge length of that mesh is at most the target and the
  mesh has at least the minimum number of vertices.
\<close>

theorem refinement_exit_meets_targets:
  assumes "generate_mesh build hull_facets centroid edge_max poly_coords hole_coords
             (Some min_points) (Some L) convex_hull boundary kwargs
           = Some (calls, Inr (points, triangles))"
    and "0 < L"
  shows "(\<exists>m. edge_max points triangles = Inr m \<and> m \<le> L) \<and> min_points \<le> int (length points)"
proof (cases rule: generate_mesh_start[of build hull_facets centroid edge_max poly_coords
      hole_coords "Some min_points" "Some L" convex_hull boundary kwargs])
  case (early calls' result')
  then show ?thesis using assms(1) by auto
next
  case (loop info r0 dx dy m max_length)
  have "(\<exists>m. edge_max points triangles = Inr m \<and> \<not> exceeds m (edge_target (Some L)))
        \<and> (case Some min_points of None \<Rightarrow> 0 | Some n \<Rightarrow> n) \<le> int (length points)"
    by (rule refine_loop_exit[OF assms(1)[unfolded loop(5)] loop(4)]) simp
  then show ?thesis using assms(2) by (auto simp: exceeds_def edge_target_def)
qed

lemma area_bounds_ok_numeric:
  "area_bounds_ok build edge_max r0 target v rest \<Longrightarrow>
     \<forall>c \<in> set rest. \<exists>v'. snd c ''max_volume'' = Some (Num v')"
proof (induction rest arbitrary: v)
  case Nil
  then show ?case by simp
next
  case (Cons c rest)
  obtain info kw where c: "c = (info, kw)" by (cases c)
  show ?case
  proof (cases "rest = []")
    case True
    then show ?thesis using Cons.prems c by simp
  next
    case False
    then obtain v' where "area_bounds_ok build edge_max r0 target v' rest"
      using Cons.prems c by (auto split: sum.splits)
    from Cons.IH[OF this] show ?thesis using Cons.prems c by simp
  qed
qed

text \<open>The schedule of area bounds, for the call stopped after any number of iterations.\<close>

lemma generate_mesh_upto_bounds:
  assumes "bounding_box (concat (ensure_unique poly_coords
            # map ensure_unique (case hole_coords of None \<Rightarrow> [] | Some hs \<Rightarrow> hs)))
           = Inr (xmin, dx, ymin, dy)"
  shows "area_bounds_ok build edge_max (xmin + dx / 2, ymin + dy / 2)
           (edge_target max_edge_length) (dx * dy / 100)
           (tl (fst (generate_mesh_upto fuel build hull_facets centroid edge_max poly_coords
                       hole_coords min_points max_edge_length convex_hull boundary kwargs)))"
proof (cases rule: generate_mesh_start[of build hull_facets centroid edge_max poly_coords
      hole_coords min_points max_edge_length convex_hull boundary kwargs])
  case (early calls result)
  then show ?thesis by auto
next
  case (loop info r0 dx' dy' m max_length)
  from generate_mesh_info_box[OF loop(1)] assms
  have same: "r0 = (xmin + dx / 2, ymin + dy / 2)" "dx' = dx" "dy' = dy" by auto
  have "\<exists>rest. fst (refine_loop_upto fuel build edge_max info (xmin + dx / 2, ymin + dy / 2)
            (case min_points of None \<Rightarrow> 0 | Some n \<Rightarrow> n) (edge_target max_edge_length)
            (kwargs(''max_volume'' \<mapsto> Num (dx * dy / 100))) [(info, kwargs)]
            (map (\<lambda>p. padd p (xmin + dx / 2, ymin + dy / 2)) (mesh_points m)) (mesh_elements m)
            max_length) = [(info, kwargs)] @ rest
          \<and> area_bounds_ok build edge_max (xmin + dx / 2, ymin + dy / 2)
                (edge_target max_edge_length) (dx * dy / 100) rest"
    by (rule refine_loop_upto_bounds) simp
  then show ?thesis unfolding loop(6) same by auto
qed

text \<open>The options, for the call stopped after any number of iterations.\<close>

lemma generate_mesh_upto_forwarding:
  "(\<forall>c \<in> set (fst (generate_mesh_upto fuel build hull_facets centroid edge_max poly_coords
                      hole_coords min_points max_edge_length convex_hull boundary kwargs)).
      \<forall>key. key \<noteq> ''max_volume'' \<longrightarrow> snd c key = kwargs key)
   \<and> (fst (generate_mesh_upto fuel build hull_facets centroid edge_max poly_coords
                      hole_coords min_points max_edge_length convex_hull boundary kwargs) \<noteq> []
        \<longrightarrow> snd (hd (fst (generate_mesh_upto fuel build hull_facets centroid edge_max poly_coords
                      hole_coords min_points max_edge_length convex_hull boundary kwargs))) = kwargs)"
proof (cases rule: generate_mesh_start[of build hull_facets centroid edge_max poly_coords
      hole_coords min_points max_edge_length convex_hull boundary kwargs])
  case (early calls result)
  then show ?thesis by auto
next
  case (loop info r0 dx dy m max_length)
  let ?Q = "\<lambda>c :: 'a invocation. \<forall>key. key \<noteq> ''max_volume'' \<longrightarrow> snd c key = kwargs key"
  let ?run = "refine_loop_upto fuel build edge_max info r0
         (case min_points of None \<Rightarrow> 0 | Some n \<Rightarrow> n)
         (edge_target max_edge_length) (kwargs(''max_volume'' \<mapsto> Num (dx * dy / 100)))
         [(info, kwargs)] (map (\<lambda>p. padd p r0) (mesh_points m)) (mesh_elements m) max_length"
  have "\<forall>c \<in> set (fst ?run). ?Q c"
  proof (rule refine_loop_upto_forwarding[where kwargs = kwargs])
    show "\<forall>key. key \<noteq> ''max_volume'' \<longrightarrow>
            (kwargs(''max_volume'' \<mapsto> Num (dx * dy / 100))) key = kwargs key"
      by simp
    show "\<forall>c \<in> set [(info, kwargs)]. ?Q c" by simp
    show "\<And>k. \<forall>key. key \<noteq> ''max_volume'' \<longrightarrow> k key = kwargs key \<Longrightarrow> ?Q (info, k)"
      by simp
  qed
  moreover have "\<exists>rest. fst ?run = [(info, kwargs)] @ rest
        \<and> area_bounds_ok build edge_max r0 (edge_target max_edge_length) (dx * dy / 100) rest"
    by (rule refine_loop_upto_bounds) simp
  ultimately show ?thesis unfolding loop(6) by auto
qed

lemma invocations_without_targets:
  assumes "generate_mesh_info hull_facets centroid poly_coords hole_coords convex_hull boundary
             = Inr (info, r0, dx, dy)"
    and "kwargs ''mesh_info'' = None"
  shows "mesh_infos_passed (invocations (generate_mesh build hull_facets centroid edge_max
           poly_coords hole_coords None None convex_hull boundary kwargs)) = [info]"
  by (cases "build info kwargs")
     (simp_all add: generate_mesh_def assms invocations_def mesh_infos_passed_def)

lemma example_rect_unique: "ensure_unique example_rect = example_rect"
  by (rule ensure_unique_distinct_id) (simp add: example_rect_def)

lemma example_hole_unique: "ensure_unique example_hole = example_hole"
  by (rule ensure_unique_distinct_id) (simp add: example_hole_def)

lemma example_rect_box: "bounding_box example_rect = Inr (0, 4, 0, 2)"
  by (simp add: example_rect_def bounding_box_Cons)

lemma example_both_box: "bounding_box (example_rect @ example_hole) = Inr (0, 4, 0, 2)"
  by (simp add: example_rect_def example_hole_def bounding_box_Cons)

lemma example_rect_centred:
  "map (\<lambda>p. psub p (2, 1)) example_rect = [(- 2, - 1), (2, - 1), (2, 1), (- 2, 1)]"
  by (simp add: example_rect_def psub_def)

lemma example_hole_centred:
  "map (\<lambda>p. psub p (2, 1)) example_hole
     = [(- 1, - (1 / 2)), (0, - (1 / 2)), (0, 1 / 2), (- 1, 1 / 2)]"
  by (simp add: example_hole_def psub_def)

lemma generate_mesh_info_eval:
  assumes "ensure_unique poly_coords = poly"
    and "map ensure_unique (case hole_coords of None \<Rightarrow> [] | Some hs \<Rightarrow> hs) = holes"
    and "bounding_box (concat (poly # holes)) = Inr (xmin, dx, ymin, dy)"
    and "r0 = (xmin + dx / 2, ymin + dy / 2)"
    and "map (\<lambda>p. psub p r0) (concat (poly # holes)) = coords"
    and "outer_facets hull_facets convex_hull boundary coords r0 [0 ..< length poly]
           = Inr (indices1, facets1)"
    and "add_hole_facets indices1 facets1 holes = Inr (indices2, facets)"
    and "hole_markers centroid r0 holes = Inr markers"
  shows "generate_mesh_info hull_facets centroid poly_coords hole_coords convex_hull boundary =
           Inr (\<lparr>mi_points = coords, mi_facets = facets, mi_holes = markers\<rparr>, r0, dx, dy)"
  using assms(3,6,7,8) unfolding assms(5)[symmetric] assms(4)
  by (simp add: generate_mesh_info_def Let_def assms(1,2))

lemma example_info_boundary:
  "generate_mesh_info hull_facets centroid example_rect None False (Some [(0, 0)]) =
     Inr (\<lparr>mi_points = [(- 2, - 1), (2, - 1), (2, 1), (- 2, 1)],
           mi_facets = [(0, 1), (1, 3), (3, 0)],
           mi_holes = []\<rparr>, (2, 1), 4, 2)"
proof (rule generate_mesh_info_eval)
  show "ensure_unique example_rect = example_rect" by (rule example_rect_unique)
  show "map ensure_unique (case None of None \<Rightarrow> [] | Some hs \<Rightarrow> hs) = ([] :: point list list)"
    by simp
  show "bounding_box (concat (example_rect # [])) = Inr (0, 4, 0, 2)"
    by (simp add: example_rect_box)
  show "((2, 1) :: point) = (0 + 4 / 2, 0 + 2 / 2)" by simp
  show "map (\<lambda>p. psub p (2, 1)) (concat (example_rect # []))
          = [(- 2, - 1), (2, - 1), (2, 1), (- 2, 1)]"
    by (simp add: example_rect_centred)
  show "outer_facets hull_facets False (Some [(0, 0)]) [(- 2, - 1), (2, - 1), (2, 1), (- 2, 1)]
          (2, 1) [0 ..< length example_rect] = Inr ([0, 1, 3], [(0, 1), (1, 3), (3, 0)])"
    by (simp add: example_rect_def outer_facets_def in_array_def psub_def cycle_def)
  show "add_hole_facets [0, 1, 3] [(0, 1), (1, 3), (3, 0)] [] = Inr ([0, 1, 3], [(0, 1), (1, 3), (3, 0)])"
    by simp
  show "hole_markers centroid (2, 1) [] = Inr []"
    by (simp add: hole_markers_def)
qed

lemma example_info_hole:
  "generate_mesh_info hull_facets example_centroid example_rect (Some [example_hole]) False
       (Some [(4, 0)]) =
     Inr (\<lparr>mi_points = [(- 2, - 1), (2, - 1), (2, 1), (- 2, 1),
                         (- 1, - (1 / 2)), (0, - (1 / 2)), (0, 1 / 2), (- 1, 1 / 2)],
           mi_facets = [(0, 1), (1, 2), (2, 0), (3, 4), (4, 5), (5, 6), (6, 3)],
           mi_holes = [(- (1 / 2), 0)]\<rparr>, (2, 1), 4, 2)"
proof (rule generate_mesh_info_eval)
  show "ensure_unique example_rect = example_rect" by (rule example_rect_unique)
  show "map ensure_unique (case Some [example_hole] of None \<Rightarrow> [] | Some hs \<Rightarrow> hs)
          = [example_hole]"
    by (simp add: example_hole_unique)
  show "bounding_box (concat (example_rect # [example_hole])) = Inr (0, 4, 0, 2)"
    by (simp add: example_both_box)
  show "((2, 1) :: point) = (0 + 4 / 2, 0 + 2 / 2)" by simp
  show "map (\<lambda>p. psub p (2, 1)) (concat (example_rect # [example_hole]))
          = [(- 2, - 1), (2, - 1), (2, 1), (- 2, 1),
             (- 1, - (1 / 2)), (0, - (1 / 2)), (0, 1 / 2), (- 1, 1 / 2)]"
    by (simp add: example_rect_centred example_hole_centred)
  show "outer_facets hull_facets False (Some [(4, 0)])
          [(- 2, - 1), (2, - 1), (2, 1), (- 2, 1),
           (- 1, - (1 / 2)), (0, - (1 / 2)), (0, 1 / 2), (- 1, 1 / 2)]
          (2, 1) [0 ..< length example_rect] = Inr ([0, 1, 2], [(0, 1), (1, 2), (2, 0)])"
    by (simp add: example_rect_def outer_facets_def in_array_def psub_def cycle_def)
  show "add_hole_facets [0, 1, 2] [(0, 1), (1, 2), (2, 0)] [example_hole]
          = Inr ([0, 1, 2, 3, 4, 5, 6], [(0, 1), (1, 2), (2, 0), (3, 4), (4, 5), (5, 6), (6, 3)])"
    by (simp add: example_hole_def cycle_def upt_rec)
  show "hole_markers example_centroid (2, 1) [example_hole] = Inr [(- (1 / 2), 0)]"
    by (simp add: hole_markers_def example_centroid_def example_hole_def psub_def)
qed

text \<open>
  C2. The rectangle \<open>(0,0), (4,0), (4,2), (0,2)\<close> with the boundary subset \<open>[(0,0)]\<close>:
  only vertex 0 is a point of the subset, but the facets passed to the engine run over
  the vertices 0, 1 and 3. Vertex 1 shares its \<open>y\<close> and vertex 3 its \<open>x\<close> with the
  boundary point, and the membership test of the code compares element by element.
\<close>

theorem boundary_subset_keeps_partial_matches:
  "mesh_infos_passed (invocations (generate_mesh build hull_facets centroid edge_max
       example_rect None None None False (Some [(0, 0)]) Map.empty)) =
     [\<lparr>mi_points = [(- 2, - 1), (2, - 1), (2, 1), (- 2, 1)],
       mi_facets = [(0, 1), (1, 3), (3, 0)],
       mi_holes = []\<rparr>]"
  by (rule invocations_without_targets[OF example_info_boundary]) simp

text \<open>
  Without a boundary subset the outer indices are all of \<open>0, \<dots>, n - 1\<close>, and
  the loop over the holes gives each hole a cycle over the range its points occupy; the
  markers are the recentred centroids, one per hole.
\<close>

lemma add_hole_facets_ranges:
  assumes "indices \<noteq> []" and "last indices + 1 = n"
  shows "add_hole_facets indices facets holes =
           Inr (indices @ concat (hole_ranges n holes),
                facets @ concat (map cycle (hole_ranges n holes)))"
  using assms
proof (induction holes arbitrary: indices facets n)
  case Nil
  then show ?case by simp
next
  case (Cons hole holes)
  let ?range = "[n ..< n + length hole]"
  have ne: "indices @ ?range \<noteq> []" using Cons.prems(1) by simp
  have lst: "last (indices @ ?range) + 1 = n + length hole"
  proof (cases "length hole")
    case 0
    then show ?thesis using Cons.prems by simp
  next
    case (Suc k)
    then have "?range \<noteq> []" by simp
    moreover have "last ?range = n + k" using Suc by simp
    ultimately show ?thesis using Suc by simp
  qed
  have "add_hole_facets indices facets (hole # holes) =
        add_hole_facets (indices @ ?range) (facets @ cycle ?range) holes"
    using Cons.prems by (simp add: Let_def)
  also have "\<dots> = Inr ((indices @ ?range) @ concat (hole_ranges (n + length hole) holes),
        (facets @ cycle ?range) @ concat (map cycle (hole_ranges (n + length hole) holes)))"
    by (rule Cons.IH[OF ne lst])
  finally show ?case by simp
qed

lemma hole_ranges_points:
  assumes "k < length holes"
  shows "map (\<lambda>i. (pre @ concat holes) ! i) (hole_ranges (length pre) holes ! k) = holes ! k"
  using assms
proof (induction holes arbitrary: pre k)
  case Nil
  then show ?case by simp
next
  case (Cons hole holes)
  show ?case
  proof (cases k)
    case 0
    have "map (\<lambda>i. (pre @ hole @ concat holes) ! i) [length pre ..< length pre + length hole] = hole"
      by (rule nth_equalityI) (simp_all add: nth_append)
    then show ?thesis using 0 by simp
  next
    case (Suc j)
    then have j: "j < length holes" using Cons.prems by simp
    have "map (\<lambda>i. ((pre @ hole) @ concat holes) ! i) (hole_ranges (length (pre @ hole)) holes ! j)
            = holes ! j"
      by (rule Cons.IH[OF j])
    then show ?thesis using Suc by simp
  qed
qed

lemma hole_markers_Inr:
  assumes "hole_markers centroid r0 holes = Inr markers"
  shows "list_all2 (\<lambda>marker hole. \<exists>c. centroid hole = Inr c \<and> marker = psub c r0) markers holes"
proof -
  let ?f = "\<lambda>hole. case centroid hole of Inl e \<Rightarrow> Inl e | Inr c \<Rightarrow> Inr (psub c r0)"
  have eq: "map ?f holes = map Inr markers"
    using assms unfolding hole_markers_def by (rule collect_InrD)
  have len: "length markers = length holes"
    using arg_cong[OF eq, of length] by simp
  show ?thesis
  proof (rule list_all2_all_nthI[OF len])
    fix k assume "k < length markers"
    then have "?f (holes ! k) = Inr (markers ! k)"
      using arg_cong[OF eq, of "\<lambda>xs. xs ! k"] len by simp
    then show "\<exists>c. centroid (holes ! k) = Inr c \<and> markers ! k = psub c r0"
      by (cases "centroid (holes ! k)") auto
  qed
qed

lemma generate_mesh_info_without_subset:
  assumes "generate_mesh_info hull_facets centroid poly_coords hole_coords False None
             = Inr (info, r0, dx, dy)"
    and "poly_coords \<noteq> []"
    and "poly = ensure_unique poly_coords"
    and "holes = map ensure_unique (case hole_coords of None \<Rightarrow> [] | Some hs \<Rightarrow> hs)"
  shows "mi_points info = map (\<lambda>p. psub p r0) (poly @ concat holes)"
    and "mi_facets info = cycle [0 ..< length poly] @ concat (map cycle (hole_ranges (length poly) holes))"
    and "\<forall>k < length holes.
           map (\<lambda>i. mi_points info ! i) (hole_ranges (length poly) holes ! k)
             = map (\<lambda>p. psub p r0) (holes ! k)"
    and "list_all2 (\<lambda>marker hole. \<exists>c. centroid hole = Inr c \<and> marker = psub c r0)
           (mi_holes info) holes"
proof -
  have ne: "[0 ..< length poly] \<noteq> []"
    using assms(2,3) by (simp add: ensure_unique_Nil_iff)
  then have lst: "last [0 ..< length poly] + 1 = length poly"
    by (cases "length poly") simp_all
  have facets: "add_hole_facets [0 ..< length poly] (cycle [0 ..< length poly]) holes =
      Inr ([0 ..< length poly] @ concat (hole_ranges (length poly) holes),
           cycle [0 ..< length poly] @ concat (map cycle (hole_ranges (length poly) holes)))"
    by (rule add_hole_facets_ranges[OF ne lst])
  obtain xmin ymin markers where
    box: "bounding_box (concat (poly # holes)) = Inr (xmin, dx, ymin, dy)"
    and r0: "r0 = (xmin + dx / 2, ymin + dy / 2)"
    and markers: "hole_markers centroid r0 holes = Inr markers"
    and info: "info = \<lparr>mi_points = map (\<lambda>p. psub p r0) (concat (poly # holes)),
                     mi_facets = cycle [0 ..< length poly]
                        @ concat (map cycle (hole_ranges (length poly) holes)),
                     mi_holes = markers\<rparr>"
    using assms(1) facets unfolding generate_mesh_info_def Let_def assms(3)[symmetric]
      assms(4)[symmetric]
    by (auto simp: outer_facets_def split: sum.splits prod.splits simp del: concat.simps)
  show "mi_points info = map (\<lambda>p. psub p r0) (poly @ concat holes)"
    by (simp add: info)
  show "mi_facets info = cycle [0 ..< length poly] @ concat (map cycle (hole_ranges (length poly) holes))"
    by (simp add: info)
  show "list_all2 (\<lambda>marker hole. \<exists>c. centroid hole = Inr c \<and> marker = psub c r0)
           (mi_holes info) holes"
    using hole_markers_Inr[OF markers] by (simp add: info)
  show "\<forall>k < length holes.
           map (\<lambda>i. mi_points info ! i) (hole_ranges (length poly) holes ! k)
             = map (\<lambda>p. psub p r0) (holes ! k)"
  proof (intro allI impI)
    fix k assume k: "k < length holes"
    let ?c = "\<lambda>p. psub p r0"
    have "map (\<lambda>i. (map ?c poly @ concat (map (map ?c) holes)) ! i)
            (hole_ranges (length (map ?c poly)) (map (map ?c) holes) ! k) = map (map ?c) holes ! k"
      by (rule hole_ranges_points) (simp add: k)
    moreover have "hole_ranges n (map (map ?c) hs) = hole_ranges n hs" for n and hs :: "point list list"
      by (induction hs arbitrary: n) simp_all
    ultimately show "map (\<lambda>i. mi_points info ! i) (hole_ranges (length poly) holes ! k)
             = map ?c (holes ! k)"
      using k by (simp add: info map_concat)
  qed
qed

text \<open>
  C6. The rectangle with the square hole and the boundary subset \<open>[(4,0)]\<close>: the last
  vertex of the outer ring is not kept, so the hole's indices start at 3. The hole's
  points are the entries 4 to 7 of the point array; its facets run over 3 to 6, the
  outer vertex 3 among them and the hole point 7 left out.
\<close>

theorem hole_facets_shifted_by_boundary_subset:
  "mesh_infos_passed (invocations (generate_mesh build hull_facets example_centroid edge_max
       example_rect (Some [example_hole]) None None False (Some [(4, 0)]) Map.empty)) =
     [\<lparr>mi_points = [(- 2, - 1), (2, - 1), (2, 1), (- 2, 1),
                     (- 1, - (1 / 2)), (0, - (1 / 2)), (0, 1 / 2), (- 1, 1 / 2)],
       mi_facets = [(0, 1), (1, 2), (2, 0), (3, 4), (4, 5), (5, 6), (6, 3)],
       mi_holes = [(- (1 / 2), 0)]\<rparr>]"
  by (rule invocations_without_targets[OF example_info_hole]) simp

lemma sqrt_quarter: "sqrt (1 / 4) = 1 / 2"
  by (simp add: real_sqrt_divide)

lemma example_info_plain:
  "generate_mesh_info hull_facets centroid example_rect None False None =
     Inr (\<lparr>mi_points = [(- 2, - 1), (2, - 1), (2, 1), (- 2, 1)],
           mi_facets = [(0, 1), (1, 2), (2, 3), (3, 0)],
           mi_holes = []\<rparr>, (2, 1), 4, 2)"
proof (rule generate_mesh_info_eval)
  show "ensure_unique example_rect = example_rect" by (rule example_rect_unique)
  show "map ensure_unique (case None of None \<Rightarrow> [] | Some hs \<Rightarrow> hs) = ([] :: point list list)"
    by simp
  show "bounding_box (concat (example_rect # [])) = Inr (0, 4, 0, 2)"
    by (simp add: example_rect_box)
  show "((2, 1) :: point) = (0 + 4 / 2, 0 + 2 / 2)" by simp
  show "map (\<lambda>p. psub p (2, 1)) (concat (example_rect # []))
          = [(- 2, - 1), (2, - 1), (2, 1), (- 2, 1)]"
    by (simp add: example_rect_centred)
  show "outer_facets hull_facets False None [(- 2, - 1), (2, - 1), (2, 1), (- 2, 1)]
          (2, 1) [0 ..< length example_rect]
          = Inr ([0, 1, 2, 3], [(0, 1), (1, 2), (2, 3), (3, 0)])"
    by (simp add: example_rect_def outer_facets_def cycle_def)
  show "add_hole_facets [0, 1, 2, 3] [(0, 1), (1, 2), (2, 3), (3, 0)] []
          = Inr ([0, 1, 2, 3], [(0, 1), (1, 2), (2, 3), (3, 0)])"
    by simp
  show "hole_markers centroid (2, 1) [] = Inr []"
    by (simp add: hole_markers_def)
qed

lemma generate_mesh_upto_enter:
  assumes "generate_mesh_info hull_facets centroid poly_coords hole_coords convex_hull boundary
             = Inr (info, r0, dx, dy)"
    and "kwargs ''mesh_info'' = None"
    and "build info kwargs = Inr m"
    and "\<not> (min_points = None \<and> (case max_edge_length of None \<Rightarrow> True | Some L \<Rightarrow> L \<le> 0))"
    and "edge_max (map (\<lambda>p. padd p r0) (mesh_points m)) (mesh_elements m) = Inr max_length"
  shows "generate_mesh_upto fuel build hull_facets centroid edge_max poly_coords hole_coords
           min_points max_edge_length convex_hull boundary kwargs =
         refine_loop_upto fuel build edge_max info r0
           (case min_points of None \<Rightarrow> 0 | Some n \<Rightarrow> n) (edge_target max_edge_length)
           (kwargs(''max_volume'' \<mapsto> Num (dx * dy / 100)))
           [(info, kwargs)] (map (\<lambda>p. padd p r0) (mesh_points m)) (mesh_elements m) max_length"
  unfolding generate_mesh_upto_def assms(1) Let_def
  by (simp only: sum.case prod.case assms(2,3,5) if_not_P[OF assms(4)] simp_thms if_False)

lemma example_enter:
  assumes "\<not> (min_points = None \<and> (case max_edge_length of None \<Rightarrow> True | Some L \<Rightarrow> L \<le> 0))"
  shows "generate_mesh_upto fuel example_build example_hull example_centroid example_edge_max
           example_rect None min_points max_edge_length False None example_kwargs =
         refine_loop_upto fuel example_build example_edge_max example_info (2, 1)
           (case min_points of None \<Rightarrow> 0 | Some n \<Rightarrow> n) (edge_target max_edge_length)
           (example_kwargs(''max_volume'' \<mapsto> Num (2 / 25)))
           [(example_info, example_kwargs)] [(0, 0), (4, 0), (4, 2), (0, 2)]
           [(0, 1, 2), (0, 2, 3)] 4"
proof -
  have "generate_mesh_upto fuel example_build example_hull example_centroid example_edge_max
           example_rect None min_points max_edge_length False None example_kwargs =
         refine_loop_upto fuel example_build example_edge_max example_info (2, 1)
           (case min_points of None \<Rightarrow> 0 | Some n \<Rightarrow> n) (edge_target max_edge_length)
           (example_kwargs(''max_volume'' \<mapsto> Num (4 * 2 / 100)))
           [(example_info, example_kwargs)]
           (map (\<lambda>p. padd p (2, 1))
              (mesh_points \<lparr>mesh_points = mi_points example_info,
                             mesh_elements = [(0, 1, 2), (0, 2, 3)]\<rparr>))
           (mesh_elements \<lparr>mesh_points = mi_points example_info,
                             mesh_elements = [(0, 1, 2), (0, 2, 3)]\<rparr>) 4"
  proof (rule generate_mesh_upto_enter)
    show "generate_mesh_info example_hull example_centroid example_rect None False None
            = Inr (example_info, (2, 1), 4, 2)"
      unfolding example_info_def by (rule example_info_plain)
    show "example_kwargs ''mesh_info'' = None" by (simp add: example_kwargs_def)
    show "example_build example_info example_kwargs
            = Inr \<lparr>mesh_points = mi_points example_info, mesh_elements = [(0, 1, 2), (0, 2, 3)]\<rparr>"
      by (simp add: example_build_def example_kwargs_def)
    show "\<not> (min_points = None \<and> (case max_edge_length of None \<Rightarrow> True | Some L \<Rightarrow> L \<le> 0))"
      by (rule assms)
    show "example_edge_max (map (\<lambda>p. padd p (2, 1))
              (mesh_points \<lparr>mesh_points = mi_points example_info,
                             mesh_elements = [(0, 1, 2), (0, 2, 3)]\<rparr>))
            (mesh_elements \<lparr>mesh_points = mi_points example_info,
                             mesh_elements = [(0, 1, 2), (0, 2, 3)]\<rparr>) = Inr 4"
      by (simp add: example_edge_max_def example_info_def)
  qed
  then show ?thesis by (simp add: example_info_def padd_def)
qed

text \<open>One iteration of the loop on the rectangle while the area bound is at least \<open>1/20\<close>.\<close>

lemma example_coarse_step:
  assumes "int 4 < mp \<or> exceeds 4 target"
    and "1 / 20 \<le> v"
  shows "refine_loop_upto (Suc fuel) example_build example_edge_max example_info (2, 1) mp target
           (example_kwargs(''max_volume'' \<mapsto> Num v)) calls
           [(0, 0), (4, 0), (4, 2), (0, 2)] [(0, 1, 2), (0, 2, 3)] 4
         = refine_loop_upto fuel example_build example_edge_max example_info (2, 1) mp target
           (example_kwargs(''max_volume'' \<mapsto> Num (v * shrink_factor target 4)))
           (calls @ [(example_info, example_kwargs(''max_volume'' \<mapsto> Num v))])
           [(0, 0), (4, 0), (4, 2), (0, 2)] [(0, 1, 2), (0, 2, 3)] 4"
proof -
  let ?kw = "example_kwargs(''max_volume'' \<mapsto> Num v)"
  let ?m = "\<lparr>mesh_points = mi_points example_info, mesh_elements = [(0, 1, 2), (0, 2, 3)]\<rparr>"
  have "refine_loop_upto (Suc fuel) example_build example_edge_max example_info (2, 1) mp target
           ?kw calls [(0, 0), (4, 0), (4, 2), (0, 2)] [(0, 1, 2), (0, 2, 3)] 4
         = refine_loop_upto fuel example_build example_edge_max example_info (2, 1) mp target
           (example_kwargs(''max_volume'' \<mapsto> Num (v * shrink_factor target 4)))
           (calls @ [(example_info, ?kw)])
           (map (\<lambda>p. padd p (2, 1)) (mesh_points ?m)) (mesh_elements ?m) 4"
  proof (rule refine_loop_upto_step)
    show "int (length [(0, 0), (4, 0), (4, 2), (0, 2 :: real) :: point]) < mp \<or> exceeds 4 target"
      using assms(1) by simp
    show "?kw ''mesh_info'' = None" by (simp add: example_kwargs_def)
    show "example_build example_info ?kw = Inr ?m"
      using assms(2) by (simp add: example_build_def)
    show "example_edge_max (map (\<lambda>p. padd p (2, 1)) (mesh_points ?m)) (mesh_elements ?m) = Inr 4"
      by (simp add: example_edge_max_def example_info_def)
    show "scale_max_volume (shrink_factor target 4) ?kw
            = Inr (example_kwargs(''max_volume'' \<mapsto> Num (v * shrink_factor target 4)))"
      by (simp add: scale_max_volume_def)
  qed
  then show ?thesis by (simp add: example_info_def padd_def)
qed

text \<open>One iteration once the area bound is below \<open>1/20\<close>: the engine adds a vertex.\<close>

lemma example_fine_step:
  assumes "int (length points) < mp \<or> exceeds ml target"
    and "v < 1 / 20"
  shows "refine_loop_upto (Suc fuel) example_build example_edge_max example_info (2, 1) mp target
           (example_kwargs(''max_volume'' \<mapsto> Num v)) calls points [(0, 1, 2), (0, 2, 3)] ml
         = refine_loop_upto fuel example_build example_edge_max example_info (2, 1) mp target
           (example_kwargs(''max_volume'' \<mapsto> Num (v * shrink_factor target (1 / 2))))
           (calls @ [(example_info, example_kwargs(''max_volume'' \<mapsto> Num v))])
           [(0, 0), (4, 0), (4, 2), (0, 2), (2, 1)] [(0, 1, 2), (0, 2, 3)] (1 / 2)"
proof -
  let ?kw = "example_kwargs(''max_volume'' \<mapsto> Num v)"
  let ?m = "\<lparr>mesh_points = mi_points example_info @ [(0, 0)],
             mesh_elements = [(0, 1, 2), (0, 2, 3)]\<rparr>"
  have "refine_loop_upto (Suc fuel) example_build example_edge_max example_info (2, 1) mp target
           ?kw calls points [(0, 1, 2), (0, 2, 3)] ml
         = refine_loop_upto fuel example_build example_edge_max example_info (2, 1) mp target
           (example_kwargs(''max_volume'' \<mapsto> Num (v * shrink_factor target (1 / 2))))
           (calls @ [(example_info, ?kw)])
           (map (\<lambda>p. padd p (2, 1)) (mesh_points ?m)) (mesh_elements ?m) (1 / 2)"
  proof (rule refine_loop_upto_step)
    show "int (length points) < mp \<or> exceeds ml target" by (rule assms(1))
    show "?kw ''mesh_info'' = None" by (simp add: example_kwargs_def)
    show "example_build example_info ?kw = Inr ?m"
      using assms(2) by (simp add: example_build_def)
    show "example_edge_max (map (\<lambda>p. padd p (2, 1)) (mesh_points ?m)) (mesh_elements ?m)
            = Inr (1 / 2)"
      by (simp add: example_edge_max_def example_info_def)
    show "scale_max_volume (shrink_factor target (1 / 2)) ?kw
            = Inr (example_kwargs(''max_volume'' \<mapsto> Num (v * shrink_factor target (1 / 2))))"
      by (simp add: scale_max_volume_def)
  qed
  then show ?thesis by (simp add: example_info_def padd_def)
qed

text \<open>
  Five vertices and edge length 1 asked for: the loop runs twice and returns.
\<close>

lemma example_upto_run:
  "generate_mesh_upto 2 example_build example_hull example_centroid example_edge_max example_rect
       None (Some 5) (Some 1) False None example_kwargs =
     ([(example_info, example_kwargs),
       (example_info, example_kwargs(''max_volume'' \<mapsto> Num (2 / 25))),
       (example_info, example_kwargs(''max_volume'' \<mapsto> Num (1 / 25)))],
      Some (Inr ([(0, 0), (4, 0), (4, 2), (0, 2), (2, 1)], [(0, 1, 2), (0, 2, 3)])))"
proof -
  let ?run = "\<lambda>fuel. refine_loop_upto fuel example_build example_edge_max example_info (2, 1) 5
                (Some 1)"
  let ?p4 = "[(0, 0), (4, 0), (4, 2), (0, 2)] :: point list"
  let ?p5 = "[(0, 0), (4, 0), (4, 2), (0, 2), (2, 1)] :: point list"
  let ?tris = "[(0, 1, 2), (0, 2, 3)] :: triangle list"
  let ?c1 = "[(example_info, example_kwargs)]"
  let ?c2 = "[(example_info, example_kwargs),
              (example_info, example_kwargs(''max_volume'' \<mapsto> Num (2 / 25)))]"
  let ?c3 = "[(example_info, example_kwargs),
              (example_info, example_kwargs(''max_volume'' \<mapsto> Num (2 / 25))),
              (example_info, example_kwargs(''max_volume'' \<mapsto> Num (1 / 25)))]"
  have half: "shrink_factor (Some 1) 4 = 1 / 2"
    by (simp add: shrink_factor_def sqrt_quarter)
  have "generate_mesh_upto (Suc (Suc 0)) example_build example_hull example_centroid
          example_edge_max example_rect None (Some 5) (Some 1) False None example_kwargs
        = ?run (Suc (Suc 0)) (example_kwargs(''max_volume'' \<mapsto> Num (2 / 25))) ?c1 ?p4 ?tris 4"
    by (subst example_enter) (simp_all add: edge_target_def del: refine_loop_upto.simps)
  also have "\<dots> = ?run (Suc 0) (example_kwargs(''max_volume'' \<mapsto> Num (1 / 25))) ?c2 ?p4 ?tris 4"
    by (subst example_coarse_step) (simp_all add: exceeds_def half del: refine_loop_upto.simps)
  also have "\<dots> = ?run 0 (example_kwargs(''max_volume''
                        \<mapsto> Num (1 / 25 * shrink_factor (Some 1) (1 / 2)))) ?c3 ?p5 ?tris (1 / 2)"
    by (subst example_fine_step) (simp_all add: exceeds_def del: refine_loop_upto.simps)
  also have "\<dots> = (?c3, Some (Inr (?p5, ?tris)))"
    by (subst refine_loop_upto_done) (simp_all add: exceeds_def)
  finally have run: "generate_mesh_upto (Suc (Suc 0)) example_build example_hull example_centroid
          example_edge_max example_rect None (Some 5) (Some 1) False None example_kwargs
        = (?c3, Some (Inr (?p5, ?tris)))" .
  have two: "Suc (Suc 0) = 2" by simp
  show ?thesis using run unfolding two .
qed

lemma example_run:
  "generate_mesh example_build example_hull example_centroid example_edge_max example_rect
       None (Some 5) (Some 1) False None example_kwargs =
     Some ([(example_info, example_kwargs),
            (example_info, example_kwargs(''max_volume'' \<mapsto> Num (2 / 25))),
            (example_info, example_kwargs(''max_volume'' \<mapsto> Num (1 / 25)))],
           Inr ([(0, 0), (4, 0), (4, 2), (0, 2), (2, 1)], [(0, 1, 2), (0, 2, 3)]))"
  by (rule generate_mesh_of_upto[OF example_upto_run])

text \<open>
  Six vertices asked for, which the engine never gives, and no edge length: after two
  iterations the loop is still running.
\<close>

lemma example_upto_running:
  "generate_mesh_upto 2 example_build example_hull example_centroid example_edge_max example_rect
       None (Some 6) None False None example_kwargs =
     ([(example_info, example_kwargs),
       (example_info, example_kwargs(''max_volume'' \<mapsto> Num (2 / 25))),
       (example_info, example_kwargs(''max_volume'' \<mapsto> Num (49 / 625)))],
      None)"
proof -
  let ?run = "\<lambda>fuel. refine_loop_upto fuel example_build example_edge_max example_info (2, 1) 6
                None"
  let ?p4 = "[(0, 0), (4, 0), (4, 2), (0, 2)] :: point list"
  let ?tris = "[(0, 1, 2), (0, 2, 3)] :: triangle list"
  let ?c1 = "[(example_info, example_kwargs)]"
  let ?c2 = "[(example_info, example_kwargs),
              (example_info, example_kwargs(''max_volume'' \<mapsto> Num (2 / 25)))]"
  let ?c3 = "[(example_info, example_kwargs),
              (example_info, example_kwargs(''max_volume'' \<mapsto> Num (2 / 25))),
              (example_info, example_kwargs(''max_volume'' \<mapsto> Num (49 / 625)))]"
  have flat: "shrink_factor None 4 = 98 / 100"
    by (simp add: shrink_factor_def)
  have "generate_mesh_upto (Suc (Suc 0)) example_build example_hull example_centroid
          example_edge_max example_rect None (Some 6) None False None example_kwargs
        = ?run (Suc (Suc 0)) (example_kwargs(''max_volume'' \<mapsto> Num (2 / 25))) ?c1 ?p4 ?tris 4"
    by (subst example_enter) (simp_all add: edge_target_def del: refine_loop_upto.simps)
  also have "\<dots> = ?run (Suc 0) (example_kwargs(''max_volume'' \<mapsto> Num (49 / 625))) ?c2 ?p4 ?tris 4"
    by (subst example_coarse_step) (simp_all add: flat del: refine_loop_upto.simps)
  also have "\<dots> = ?run 0 (example_kwargs(''max_volume'' \<mapsto> Num (49 / 625 * (98 / 100))))
                      ?c3 ?p4 ?tris 4"
    by (subst example_coarse_step) (simp_all add: flat del: refine_loop_upto.simps)
  also have "\<dots> = (?c3, None)"
    by simp
  finally have run: "generate_mesh_upto (Suc (Suc 0)) example_build example_hull example_centroid
          example_edge_max example_rect None (Some 6) None False None example_kwargs
        = (?c3, None)" .
  have two: "Suc (Suc 0) = 2" by simp
  show ?thesis using run unfolding two .
qed

lemma example_loop_running:
  assumes "length points \<le> 5"
  shows "snd (refine_loop_upto fuel example_build example_edge_max example_info (2, 1) 6 None
           (example_kwargs(''max_volume'' \<mapsto> Num v)) calls points triangles ml) = None"
  using assms
proof (induction fuel arbitrary: v calls points triangles ml)
  case 0
  then show ?case by simp
next
  case (Suc fuel)
  let ?kw = "example_kwargs(''max_volume'' \<mapsto> Num v)"
  obtain extra where b: "example_build example_info ?kw
        = Inr \<lparr>mesh_points = mi_points example_info @ extra, mesh_elements = [(0, 1, 2), (0, 2, 3)]\<rparr>"
    and extra: "length extra \<le> 1"
    by (cases "v < 1 / 20") (simp_all add: example_build_def)
  let ?m = "\<lparr>mesh_points = mi_points example_info @ extra, mesh_elements = [(0, 1, 2), (0, 2, 3)]\<rparr>"
  obtain ml' where em: "example_edge_max (map (\<lambda>p. padd p (2, 1)) (mesh_points ?m))
        (mesh_elements ?m) = Inr ml'"
    by (simp add: example_edge_max_def)
  have sc: "scale_max_volume (shrink_factor None ml') ?kw
        = Inr (example_kwargs(''max_volume'' \<mapsto> Num (v * shrink_factor None ml')))"
    by (simp add: scale_max_volume_def)
  have step: "refine_loop_upto (Suc fuel) example_build example_edge_max example_info (2, 1) 6 None
           ?kw calls points triangles ml
        = refine_loop_upto fuel example_build example_edge_max example_info (2, 1) 6 None
           (example_kwargs(''max_volume'' \<mapsto> Num (v * shrink_factor None ml')))
           (calls @ [(example_info, ?kw)])
           (map (\<lambda>p. padd p (2, 1)) (mesh_points ?m)) (mesh_elements ?m) ml'"
  proof (rule refine_loop_upto_step)
    show "int (length points) < 6 \<or> exceeds ml None" using Suc.prems by simp
    show "?kw ''mesh_info'' = None" by (simp add: example_kwargs_def)
  qed (rule b em sc)+
  have "length (map (\<lambda>p. padd p (2, 1)) (mesh_points ?m)) \<le> 5"
    using extra by (simp add: example_info_def)
  then have "snd (refine_loop_upto fuel example_build example_edge_max example_info (2, 1) 6 None
           (example_kwargs(''max_volume'' \<mapsto> Num (v * shrink_factor None ml')))
           (calls @ [(example_info, ?kw)])
           (map (\<lambda>p. padd p (2, 1)) (mesh_points ?m)) (mesh_elements ?m) ml') = None"
    by (rule Suc.IH)
  then show ?case unfolding step .
qed

text \<open>The call that asks for six vertices never returns.\<close>

lemma example_never_returns:
  "generate_mesh example_build example_hull example_centroid example_edge_max example_rect
       None (Some 6) None False None example_kwargs = None"
proof (cases "generate_mesh example_build example_hull example_centroid example_edge_max
       example_rect None (Some 6) None False None example_kwargs")
  case None
  then show ?thesis .
next
  case (Some y)
  obtain calls result where y: "y = (calls, result)" by (cases y)
  from generate_mesh_upto_complete[OF Some[unfolded y]] obtain fuel where
    "generate_mesh_upto fuel example_build example_hull example_centroid example_edge_max
       example_rect None (Some 6) None False None example_kwargs = (calls, Some result)"
    by blast
  moreover have "snd (generate_mesh_upto fuel example_build example_hull example_centroid
       example_edge_max example_rect None (Some 6) None False None example_kwargs) = None"
    by (subst example_enter) (simp_all add: edge_target_def example_loop_running
        del: refine_loop_upto.simps)
  ultimately show ?thesis by simp
qed

text \<open>
  The rectangle with the stand-in engine, five vertices and edge length 1 asked for: the
  loop runs twice and returns five vertices with measure \<open>1/2\<close>.
\<close>

theorem refinement_exit_meets_targets_witness:
  "generate_mesh example_build example_hull example_centroid example_edge_max example_rect
       None (Some 5) (Some 1) False None example_kwargs =
     Some ([(example_info, example_kwargs),
            (example_info, example_kwargs(''max_volume'' \<mapsto> Num (2 / 25))),
            (example_info, example_kwargs(''max_volume'' \<mapsto> Num (1 / 25)))],
           Inr ([(0, 0), (4, 0), (4, 2), (0, 2), (2, 1)], [(0, 1, 2), (0, 2, 3)]))
   \<and> (0 :: real) < 1
   \<and> (\<exists>m. example_edge_max [(0, 0), (4, 0), (4, 2), (0, 2), (2, 1)] [(0, 1, 2), (0, 2, 3)] = Inr m
          \<and> m \<le> 1)
   \<and> (5 :: int) \<le> int (length [(0, 0), (4, 0), (4, 2), (0, 2), (2, 1 :: real) :: point])"
proof -
  have pos: "(0 :: real) < 1" by simp
  from refinement_exit_meets_targets[OF example_run pos] example_run pos
  show ?thesis by blast
qed

text \<open>
  C5. \<open>generate_mesh_upto fuel\<close> is the call observed after at most \<open>fuel\<close> iterations
  of its loop, returned or still running; \<open>calls\<close> are the invocations made until then.
  After the first one they follow the schedule of area bounds that starts at
  \<open>dx * dy / 100\<close>, for the extent \<open>dx\<close>, \<open>dy\<close> of the bounding box of the combined
  deduplicated coordinates: each iteration multiplies the bound by the factor for the
  maximum edge length it measured. The same holds of the invocations of a call that
  returns. The factor is \<open>min 0.98 (sqrt (L / measured))\<close> for a positive target \<open>L\<close>
  and \<open>0.98\<close> when there is no positive target.
\<close>

theorem refinement_area_bound_schedule:
  assumes "generate_mesh_upto fuel build hull_facets centroid edge_max poly_coords hole_coords
             min_points max_edge_length convex_hull boundary kwargs = (calls, outcome)"
    and "bounding_box (concat (ensure_unique poly_coords
            # map ensure_unique (case hole_coords of None \<Rightarrow> [] | Some hs \<Rightarrow> hs)))
           = Inr (xmin, dx, ymin, dy)"
  shows "area_bounds_ok build edge_max (xmin + dx / 2, ymin + dy / 2)
           (edge_target max_edge_length) (dx * dy / 100) (tl calls)
         \<and> (\<forall>calls' result.
               generate_mesh build hull_facets centroid edge_max poly_coords hole_coords
                 min_points max_edge_length convex_hull boundary kwargs = Some (calls', result)
               \<longrightarrow> area_bounds_ok build edge_max (xmin + dx / 2, ymin + dy / 2)
                     (edge_target max_edge_length) (dx * dy / 100) (tl calls'))
         \<and> (\<forall>L m. 0 < L \<and> 0 < m \<longrightarrow>
               shrink_factor (edge_target (Some L)) m = min (98 / 100) (sqrt (L / m)))
         \<and> (\<forall>L m. L \<le> 0 \<longrightarrow> shrink_factor (edge_target (Some L)) m = 98 / 100)
         \<and> (\<forall>m. shrink_factor (edge_target None) m = 98 / 100)"
proof -
  have factors: "(\<forall>L m. 0 < L \<and> 0 < m \<longrightarrow>
               shrink_factor (edge_target (Some L)) m = min (98 / 100) (sqrt (L / m)))
         \<and> (\<forall>L m. L \<le> 0 \<longrightarrow> shrink_factor (edge_target (Some L)) m = 98 / 100)
         \<and> (\<forall>m. shrink_factor (edge_target None) m = 98 / 100)"
    by (simp add: shrink_factor_def edge_target_def)
  have running: "area_bounds_ok build edge_max (xmin + dx / 2, ymin + dy / 2)
           (edge_target max_edge_length) (dx * dy / 100) (tl calls)"
    using generate_mesh_upto_bounds[OF assms(2), of build edge_max max_edge_length fuel
        hull_facets centroid min_points convex_hull boundary kwargs]
    unfolding assms(1) by simp
  have returned: "area_bounds_ok build edge_max (xmin + dx / 2, ymin + dy / 2)
           (edge_target max_edge_length) (dx * dy / 100) (tl calls')"
    if "generate_mesh build hull_facets centroid edge_max poly_coords hole_coords
          min_points max_edge_length convex_hull boundary kwargs = Some (calls', result)"
    for calls' result
  proof -
    from generate_mesh_upto_complete[OF that] obtain fuel' where
      f: "generate_mesh_upto fuel' build hull_facets centroid edge_max poly_coords hole_coords
            min_points max_edge_length convex_hull boundary kwargs = (calls', Some result)"
      by blast
    show ?thesis
      using generate_mesh_upto_bounds[OF assms(2), of build edge_max max_edge_length fuel'
          hull_facets centroid min_points convex_hull boundary kwargs]
      unfolding f by simp
  qed
  from running returned factors show ?thesis by blast
qed

text \<open>
  The call that asks for six vertices and never returns, after two iterations: the loop
  has started at \<open>4 * 2 / 100 = 2/25\<close> and gone on to \<open>2/25 * 0.98 = 49/625\<close>. The
  call that asks for five vertices and edge length 1 returns after two iterations: its
  first mesh measures \<open>4\<close>, the factor is \<open>min 0.98 (sqrt (1/4)) = 1/2\<close> and the bounds
  are \<open>2/25\<close> and \<open>1/25\<close>.
\<close>

theorem refinement_area_bound_schedule_witness:
  "generate_mesh_upto 2 example_build example_hull example_centroid example_edge_max example_rect
       None (Some 6) None False None example_kwargs =
     ([(example_info, example_kwargs),
       (example_info, example_kwargs(''max_volume'' \<mapsto> Num (2 / 25))),
       (example_info, example_kwargs(''max_volume'' \<mapsto> Num (49 / 625)))],
      None)
   \<and> generate_mesh example_build example_hull example_centroid example_edge_max example_rect
       None (Some 6) None False None example_kwargs = None
   \<and> bounding_box (concat (ensure_unique example_rect
          # map ensure_unique (case None of None \<Rightarrow> [] | Some hs \<Rightarrow> hs))) = Inr (0, 4, 0, 2)
   \<and> area_bounds_ok example_build example_edge_max (0 + 4 / 2, 0 + 2 / 2)
         (edge_target None) (4 * 2 / 100)
         (tl [(example_info, example_kwargs),
              (example_info, example_kwargs(''max_volume'' \<mapsto> Num (2 / 25))),
              (example_info, example_kwargs(''max_volume'' \<mapsto> Num (49 / 625)))])
   \<and> generate_mesh example_build example_hull example_centroid example_edge_max example_rect
       None (Some 5) (Some 1) False None example_kwargs =
     Some ([(example_info, example_kwargs),
            (example_info, example_kwargs(''max_volume'' \<mapsto> Num (2 / 25))),
            (example_info, example_kwargs(''max_volume'' \<mapsto> Num (1 / 25)))],
           Inr ([(0, 0), (4, 0), (4, 2), (0, 2), (2, 1)], [(0, 1, 2), (0, 2, 3)]))
   \<and> area_bounds_ok example_build example_edge_max (0 + 4 / 2, 0 + 2 / 2)
         (edge_target (Some 1)) (4 * 2 / 100)
         (tl [(example_info, example_kwargs),
              (example_info, example_kwargs(''max_volume'' \<mapsto> Num (2 / 25))),
              (example_info, example_kwargs(''max_volume'' \<mapsto> Num (1 / 25)))])
   \<and> shrink_factor (edge_target None) 4 = 98 / 100
   \<and> shrink_factor (edge_target (Some 1)) 4 = 1 / 2"
proof -
  have box: "bounding_box (concat (ensure_unique example_rect
          # map ensure_unique (case None of None \<Rightarrow> [] | Some hs \<Rightarrow> hs))) = Inr (0, 4, 0, 2)"
    by (simp add: example_rect_unique example_rect_box)
  have flat: "shrink_factor (edge_target None) 4 = 98 / 100"
    by (simp add: shrink_factor_def edge_target_def)
  have half: "shrink_factor (edge_target (Some 1)) 4 = 1 / 2"
    by (simp add: shrink_factor_def edge_target_def sqrt_quarter)
  from refinement_area_bound_schedule[OF example_upto_running box]
  have running: "area_bounds_ok example_build example_edge_max (0 + 4 / 2, 0 + 2 / 2)
         (edge_target None) (4 * 2 / 100)
         (tl [(example_info, example_kwargs),
              (example_info, example_kwargs(''max_volume'' \<mapsto> Num (2 / 25))),
              (example_info, example_kwargs(''max_volume'' \<mapsto> Num (49 / 625)))])"
    by blast
  from refinement_area_bound_schedule[OF example_upto_run box]
  have "\<forall>calls' result.
          generate_mesh example_build example_hull example_centroid example_edge_max example_rect
            None (Some 5) (Some 1) False None example_kwargs = Some (calls', result)
          \<longrightarrow> area_bounds_ok example_build example_edge_max (0 + 4 / 2, 0 + 2 / 2)
                (edge_target (Some 1)) (4 * 2 / 100) (tl calls')"
    by blast
  with example_run
  have returned: "area_bounds_ok example_build example_edge_max (0 + 4 / 2, 0 + 2 / 2)
         (edge_target (Some 1)) (4 * 2 / 100)
         (tl [(example_info, example_kwargs),
              (example_info, example_kwargs(''max_volume'' \<mapsto> Num (2 / 25))),
              (example_info, example_kwargs(''max_volume'' \<mapsto> Num (1 / 25)))])"
    by blast
  from example_upto_running example_never_returns box running example_run returned flat half
  show ?thesis by blast
qed

text \<open>
  C7, as the code has it. \<open>calls\<close> are the invocations a call has made after at most
  \<open>fuel\<close> iterations of its loop, returned or still running. Every option other than
  \<open>max_volume\<close> reaches every invocation with the caller's value, and no other option is
  added. The first invocation receives the caller's options unchanged, \<open>max_volume\<close>
  included. The invocations of the refinement loop receive \<open>max_volume\<close> overwritten
  with the loop's own area bound: a number that starts at \<open>dx * dy / 100\<close> and follows
  the schedule of the loop, whatever the caller passed. The same holds of the
  invocations of a call that returns.
\<close>

theorem engine_options_forwarded:
  assumes "generate_mesh_upto fuel build hull_facets centroid edge_max poly_coords hole_coords
             min_points max_edge_length convex_hull boundary kwargs = (calls, outcome)"
  shows "(\<forall>c \<in> set calls. \<forall>key. key \<noteq> ''max_volume'' \<longrightarrow> snd c key = kwargs key)
         \<and> (calls \<noteq> [] \<longrightarrow> snd (hd calls) = kwargs)
         \<and> (\<forall>c \<in> set (tl calls). \<exists>v. snd c ''max_volume'' = Some (Num v))
         \<and> (\<forall>xmin dx ymin dy.
               bounding_box (concat (ensure_unique poly_coords
                 # map ensure_unique (case hole_coords of None \<Rightarrow> [] | Some hs \<Rightarrow> hs)))
                 = Inr (xmin, dx, ymin, dy)
               \<longrightarrow> area_bounds_ok build edge_max (xmin + dx / 2, ymin + dy / 2)
                     (edge_target max_edge_length) (dx * dy / 100) (tl calls))
         \<and> (\<forall>calls' result.
               generate_mesh build hull_facets centroid edge_max poly_coords hole_coords
                 min_points max_edge_length convex_hull boundary kwargs = Some (calls', result)
               \<longrightarrow> (\<forall>c \<in> set calls'. \<forall>key. key \<noteq> ''max_volume'' \<longrightarrow> snd c key = kwargs key)
                   \<and> (calls' \<noteq> [] \<longrightarrow> snd (hd calls') = kwargs)
                   \<and> (\<forall>c \<in> set (tl calls'). \<exists>v. snd c ''max_volume'' = Some (Num v)))"
proof -
  let ?upto = "\<lambda>fuel. generate_mesh_upto fuel build hull_facets centroid edge_max poly_coords
                 hole_coords min_points max_edge_length convex_hull boundary kwargs"
  have numeric: "\<forall>c \<in> set (tl (fst (?upto n))). \<exists>v. snd c ''max_volume'' = Some (Num v)" for n
  proof (cases rule: generate_mesh_start[of build hull_facets centroid edge_max poly_coords
        hole_coords min_points max_edge_length convex_hull boundary kwargs])
    case (early calls result)
    then show ?thesis by auto
  next
    case (loop info r0 dx dy m max_length)
    from generate_mesh_info_box[OF loop(1)] obtain xmin ymin where
      "bounding_box (concat (ensure_unique poly_coords
          # map ensure_unique (case hole_coords of None \<Rightarrow> [] | Some hs \<Rightarrow> hs)))
        = Inr (xmin, dx, ymin, dy)"
      by blast
    from area_bounds_ok_numeric[OF generate_mesh_upto_bounds[OF this]]
    show ?thesis .
  qed
  have all: "(\<forall>c \<in> set (fst (?upto n)). \<forall>key. key \<noteq> ''max_volume'' \<longrightarrow> snd c key = kwargs key)
         \<and> (fst (?upto n) \<noteq> [] \<longrightarrow> snd (hd (fst (?upto n))) = kwargs)" for n
    by (rule generate_mesh_upto_forwarding)
  have schedule: "area_bounds_ok build edge_max (xmin + dx / 2, ymin + dy / 2)
                     (edge_target max_edge_length) (dx * dy / 100) (tl (fst (?upto n)))"
    if "bounding_box (concat (ensure_unique poly_coords
          # map ensure_unique (case hole_coords of None \<Rightarrow> [] | Some hs \<Rightarrow> hs)))
        = Inr (xmin, dx, ymin, dy)" for xmin dx ymin dy n
    by (rule generate_mesh_upto_bounds[OF that])
  have returned: "(\<forall>c \<in> set calls'. \<forall>key. key \<noteq> ''max_volume'' \<longrightarrow> snd c key = kwargs key)
                   \<and> (calls' \<noteq> [] \<longrightarrow> snd (hd calls') = kwargs)
                   \<and> (\<forall>c \<in> set (tl calls'). \<exists>v. snd c ''max_volume'' = Some (Num v))"
    if "generate_mesh build hull_facets centroid edge_max poly_coords hole_coords
          min_points max_edge_length convex_hull boundary kwargs = Some (calls', result)"
    for calls' result
  proof -
    from generate_mesh_upto_complete[OF that] obtain n where
      "?upto n = (calls', Some result)" by blast
    then have "fst (?upto n) = calls'" by simp
    then show ?thesis using all[of n] numeric[of n] by simp
  qed
  have here: "fst (?upto fuel) = calls" using assms by simp
  show ?thesis
    using all[of fuel] numeric[of fuel] schedule[of _ _ _ _ fuel] returned
    unfolding here by blast
qed

text \<open>
  The call that returns after two iterations: \<open>min_angle\<close> reaches all three invocations
  unchanged, the first invocation has the caller's options, and the two invocations of
  the loop carry the bounds \<open>2/25\<close> and \<open>1/25\<close>.
\<close>

theorem engine_options_forwarded_witness:
  "generate_mesh_upto 2 example_build example_hull example_centroid example_edge_max example_rect
       None (Some 5) (Some 1) False None example_kwargs =
     ([(example_info, example_kwargs),
       (example_info, example_kwargs(''max_volume'' \<mapsto> Num (2 / 25))),
       (example_info, example_kwargs(''max_volume'' \<mapsto> Num (1 / 25)))],
      Some (Inr ([(0, 0), (4, 0), (4, 2), (0, 2), (2, 1)], [(0, 1, 2), (0, 2, 3)])))
   \<and> generate_mesh example_build example_hull example_centroid example_edge_max example_rect
       None (Some 5) (Some 1) False None example_kwargs =
     Some ([(example_info, example_kwargs),
            (example_info, example_kwargs(''max_volume'' \<mapsto> Num (2 / 25))),
            (example_info, example_kwargs(''max_volume'' \<mapsto> Num (1 / 25)))],
           Inr ([(0, 0), (4, 0), (4, 2), (0, 2), (2, 1)], [(0, 1, 2), (0, 2, 3)]))
   \<and> options_passed ''min_angle''
         [(example_info, example_kwargs),
          (example_info, example_kwargs(''max_volume'' \<mapsto> Num (2 / 25))),
          (example_info, example_kwargs(''max_volume'' \<mapsto> Num (1 / 25)))]
       = [example_kwargs ''min_angle'', example_kwargs ''min_angle'', example_kwargs ''min_angle'']
   \<and> example_kwargs ''min_angle'' = Some (Num 30)
   \<and> snd (hd [(example_info, example_kwargs),
          (example_info, example_kwargs(''max_volume'' \<mapsto> Num (2 / 25))),
          (example_info, example_kwargs(''max_volume'' \<mapsto> Num (1 / 25)))]) = example_kwargs
   \<and> bounding_box (concat (ensure_unique example_rect
          # map ensure_unique (case None of None \<Rightarrow> [] | Some hs \<Rightarrow> hs))) = Inr (0, 4, 0, 2)
   \<and> area_bounds_ok example_build example_edge_max (0 + 4 / 2, 0 + 2 / 2)
         (edge_target (Some 1)) (4 * 2 / 100)
         (tl [(example_info, example_kwargs),
              (example_info, example_kwargs(''max_volume'' \<mapsto> Num (2 / 25))),
              (example_info, example_kwargs(''max_volume'' \<mapsto> Num (1 / 25)))])"
proof -
  let ?calls = "[(example_info, example_kwargs),
          (example_info, example_kwargs(''max_volume'' \<mapsto> Num (2 / 25))),
          (example_info, example_kwargs(''max_volume'' \<mapsto> Num (1 / 25)))]"
  have box: "bounding_box (concat (ensure_unique example_rect
          # map ensure_unique (case None of None \<Rightarrow> [] | Some hs \<Rightarrow> hs))) = Inr (0, 4, 0, 2)"
    by (simp add: example_rect_unique example_rect_box)
  from engine_options_forwarded[OF example_upto_run]
  have "\<forall>calls' result.
          generate_mesh example_build example_hull example_centroid example_edge_max example_rect
            None (Some 5) (Some 1) False None example_kwargs = Some (calls', result)
          \<longrightarrow> (\<forall>c \<in> set calls'. \<forall>key. key \<noteq> ''max_volume'' \<longrightarrow> snd c key = example_kwargs key)"
    by blast
  with example_run
  have all: "\<forall>c \<in> set ?calls. \<forall>key. key \<noteq> ''max_volume'' \<longrightarrow> snd c key = example_kwargs key"
    by blast
  from engine_options_forwarded[OF example_upto_run]
  have first: "snd (hd ?calls) = example_kwargs"
    and schedule: "\<forall>xmin dx ymin dy.
               bounding_box (concat (ensure_unique example_rect
                 # map ensure_unique (case None of None \<Rightarrow> [] | Some hs \<Rightarrow> hs)))
                 = Inr (xmin, dx, ymin, dy)
               \<longrightarrow> area_bounds_ok example_build example_edge_max (xmin + dx / 2, ymin + dy / 2)
                     (edge_target (Some 1)) (dx * dy / 100) (tl ?calls)"
    by blast+
  have "\<forall>c \<in> set ?calls. snd c ''min_angle'' = example_kwargs ''min_angle''"
    using all by simp
  then have passed: "options_passed ''min_angle'' ?calls
       = [example_kwargs ''min_angle'', example_kwargs ''min_angle'', example_kwargs ''min_angle'']"
    unfolding options_passed_def by (simp add: case_prod_unfold)
  have angle: "example_kwargs ''min_angle'' = Some (Num 30)"
    by (simp add: example_kwargs_def)
  have bounds: "area_bounds_ok example_build example_edge_max (0 + 4 / 2, 0 + 2 / 2)
         (edge_target (Some 1)) (4 * 2 / 100) (tl ?calls)"
    using schedule box by blast
  from example_upto_run example_run passed angle first box bounds show ?thesis by blast
qed

text \<open>
  The same call: the caller's \<open>max_volume = 5\<close> reaches the first invocation only; the
  loop's invocations receive \<open>2/25\<close> and \<open>1/25\<close>.
\<close>

theorem max_volume_overwritten_in_refinement:
  "options_passed ''max_volume''
     (invocations (generate_mesh example_build example_hull example_centroid example_edge_max
        example_rect None (Some 5) (Some 1) False None example_kwargs))
     = [Some (Num 5), Some (Num (2 / 25)), Some (Num (1 / 25))]
   \<and> example_kwargs ''max_volume'' = Some (Num 5)"
  unfolding example_run
  by (simp add: invocations_def options_passed_def example_kwargs_def)

subsection \<open>optimize_mesh\<close>

lemma example_smoother_contract: "mesh_smoother example_smoother"
  unfolding mesh_smoother_def example_smoother_def
  by (auto simp del: upt_Suc)

lemma example_fan_boundary: "boundary_vertices example_fan = {0, 1, 2, 3}"
proof -
  have edges: "concat (map triangle_edges example_fan)
      = [(0, 1), (1, 4), (0, 4), (1, 2), (2, 4), (1, 4), (2, 3), (3, 4), (2, 4),
         (0, 3), (0, 4), (3, 4)]"
    by (simp add: example_fan_def triangle_edges_def)
  have single: "filter (\<lambda>e. count_list [(0, 1), (1, 4), (0, 4), (1, 2), (2, 4), (1, 4), (2, 3),
                   (3, 4), (2, 4), (0, 3), (0, 4), (3, 4 :: nat) :: nat \<times> nat] e = 1)
        [(0, 1), (1, 4), (0, 4), (1, 2), (2, 4), (1, 4), (2, 3), (3, 4), (2, 4),
         (0, 3), (0, 4), (3, 4)]
      = [(0, 1), (1, 2), (2, 3), (0, 3)]"
    by simp
  show ?thesis
    unfolding boundary_vertices_def Let_def edges single by auto
qed

lemma example_fan_smoothed:
  "optimize_mesh example_smoother example_fan_points example_fan 10 ''cvt-block-diagonal''
       (1 / 1000) False Map.empty =
     Inr ([(0, 0), (2, 0), (2, 2), (0, 2), (9 / 10, 9 / 10)], example_fan)"
proof -
  have idx: "[0 ..< length example_fan_points] = [0, 1, 2, 3, 4]"
    by (simp add: example_fan_points_def upt_rec)
  show ?thesis
    unfolding optimize_mesh_def example_smoother_def idx example_fan_boundary
    by (simp add: example_fan_points_def)
qed

text \<open>
  C8. With an optimizer that keeps the smoother's contract, a mesh that
  \<open>optimize_mesh\<close> returns has the triangle array of the input, the same triples in
  the same order, and every boundary vertex at its input coordinates: only coordinates
  of other vertices may differ. (When the optimizer raises, so does \<open>optimize_mesh\<close>.)
\<close>

theorem optimize_mesh_keeps_connectivity:
  assumes "mesh_smoother optimizer"
    and "optimize_mesh optimizer points triangles steps method tolerance verbose kwargs
           = Inr (points', triangles')"
  shows "triangles' = triangles
         \<and> length points' = length points
         \<and> (\<forall>i \<in> boundary_vertices triangles. i < length points \<longrightarrow> points' ! i = points ! i)"
proof -
  have "optimizer points triangles method tolerance steps verbose kwargs = Inr (points', triangles')"
    using assms(2) by (simp add: optimize_mesh_def split: sum.splits prod.splits)
  with assms(1) show ?thesis
    unfolding mesh_smoother_def by blast
qed

text \<open>
  The square with a vertex inside: the smoother moves the inner vertex from
  \<open>(1/2, 1/2)\<close> to \<open>(9/10, 9/10)\<close>; the triangles and the four corners stay.
\<close>

theorem optimize_mesh_keeps_connectivity_witness:
  "optimize_mesh example_smoother example_fan_points example_fan 10 ''cvt-block-diagonal''
       (1 / 1000) False Map.empty =
     Inr ([(0, 0), (2, 0), (2, 2), (0, 2), (9 / 10, 9 / 10)], example_fan)
   \<and> boundary_vertices example_fan = {0, 1, 2, 3}
   \<and> length [(0, 0), (2, 0), (2, 2), (0, 2), (9 / 10, 9 / 10 :: real) :: point]
       = length example_fan_points
   \<and> [(0, 0), (2, 0), (2, 2), (0, 2), (9 / 10, 9 / 10)] ! 3 = example_fan_points ! 3
   \<and> [(0, 0), (2, 0), (2, 2), (0, 2), (9 / 10, 9 / 10)] ! 4 \<noteq> example_fan_points ! 4"
proof -
  from optimize_mesh_keeps_connectivity[OF example_smoother_contract example_fan_smoothed]
  have len: "length [(0, 0), (2, 0), (2, 2), (0, 2), (9 / 10, 9 / 10 :: real) :: point]
       = length example_fan_points"
    and fixed: "\<forall>i \<in> boundary_vertices example_fan. i < length example_fan_points \<longrightarrow>
       [(0, 0), (2, 0), (2, 2), (0, 2), (9 / 10, 9 / 10)] ! i = example_fan_points ! i"
    by blast+
  have "3 \<in> boundary_vertices example_fan" by (simp add: example_fan_boundary)
  moreover have "3 < length example_fan_points" by (simp add: example_fan_points_def)
  ultimately have corner: "[(0, 0), (2, 0), (2, 2), (0, 2), (9 / 10, 9 / 10)] ! 3
      = example_fan_points ! 3"
    using fixed by blast
  have moved: "[(0, 0), (2, 0), (2, 2), (0, 2), (9 / 10, 9 / 10 :: real) :: point] ! 4
      \<noteq> example_fan_points ! 4"
    by (simp add: example_fan_points_def)
  from example_fan_smoothed example_fan_boundary len corner moved show ?thesis by blast
qed

end
